theory Spec2Isabelle
  imports Main "HOL-Library.Word"
begin

unbundle bit_operations_syntax

section \<open>Configuration of the DMA connected I2S (i2s\_ioexpander.cpp, lines 70 to 74)\<close>

definition DMA_BUF_COUNT :: nat where
  "DMA_BUF_COUNT = 5"

definition DMA_BUF_LEN :: nat where
  "DMA_BUF_LEN = 2000"

definition I2S_SAMPLE_SIZE :: nat where
  "I2S_SAMPLE_SIZE = 4"

text \<open>
  The macro is written without parentheses (\<^verbatim>\<open>DMA_BUF_LEN / I2S_SAMPLE_SIZE\<close>); at each
  of its uses (\<^verbatim>\<open>i < DMA_SAMPLE_COUNT\<close>, \<^verbatim>\<open>DMA_SAMPLE_COUNT - SAMPLE_SAFE_COUNT\<close>,
  \<^verbatim>\<open>dma.rw_pos = DMA_SAMPLE_COUNT\<close>) the expansion still parses as the quotient.
\<close>

definition DMA_SAMPLE_COUNT :: nat where
  "DMA_SAMPLE_COUNT = DMA_BUF_LEN div I2S_SAMPLE_SIZE"

text \<open>
  Modelled from the spec: the header i2s\_ioexpander.h, which defines
  \<^verbatim>\<open>I2S_IOEXP_USEC_PER_PULSE\<close>, is not among the source files. The value 4 is the one the
  comment at the head of i2s\_ioexpander.cpp computes with (``2000/4 x
  I2S\_IOEXP\_USEC\_PER\_PULSE = 2000 us'') and the one the sibling header i2s\_out.h gives
  \<^verbatim>\<open>I2S_OUT_USEC_PER_PULSE\<close>; with it the safety margin of the spec (``20 time-units
  worth of samples'') is 5 samples.
\<close>

definition I2S_IOEXP_USEC_PER_PULSE :: nat where
  "I2S_IOEXP_USEC_PER_PULSE = 4"

definition SAMPLE_SAFE_COUNT :: nat where
  "SAMPLE_SAFE_COUNT = 20 div I2S_IOEXP_USEC_PER_PULSE"

section \<open>Memory\<close>

text \<open>
  Pointers are numbers (0 is the null pointer). A DMA buffer is the byte memory that
  starts at its base address: a total function from byte offsets to bytes, so that an
  offset at or past \<^const>\<open>DMA_BUF_LEN\<close> is the memory behind the buffer, which C lets
  the program reach without any check. The ESP32 is little-endian: the 32-bit sample
  with index \<open>i\<close> of a buffer seen through a \<^verbatim>\<open>uint32_t *\<close> occupies the bytes
  \<open>4 * i\<close> to \<open>4 * i + 3\<close>, lowest byte first.
\<close>

type_synonym addr = nat
type_synonym bytes = "nat \<Rightarrow> 8 word"

definition store8 :: "bytes \<Rightarrow> nat \<Rightarrow> 8 word \<Rightarrow> bytes" where
  "store8 m i b = m(i := b)"

definition store32 :: "bytes \<Rightarrow> nat \<Rightarrow> 32 word \<Rightarrow> bytes" where
  "store32 m i w =
     m(4 * i := ucast w,
       4 * i + 1 := ucast (drop_bit 8 w),
       4 * i + 2 := ucast (drop_bit 16 w),
       4 * i + 3 := ucast (drop_bit 24 w))"

definition load32 :: "bytes \<Rightarrow> nat \<Rightarrow> 32 word" where
  "load32 m i =
     ucast (m (4 * i)) OR push_bit 8 (ucast (m (4 * i + 1)))
       OR push_bit 16 (ucast (m (4 * i + 2))) OR push_bit 24 (ucast (m (4 * i + 3)))"

text \<open>
  The DMA descriptor \<^verbatim>\<open>lldesc_t\<close> of the ESP32 ROM headers: three 12, 12 and 5 bit
  fields and three flags packed in one word, the byte pointer \<^verbatim>\<open>buf\<close> (the source
  casts it from and to \<^verbatim>\<open>uint32_t *\<close>), and the link to the next descriptor.
\<close>

record lldesc =
  size_f :: "12 word"
  length_f :: "12 word"
  offset_f :: "5 word"
  sosf :: "1 word"
  eof :: "1 word"
  owner :: "1 word"
  buf :: addr
  empty_f :: addr

section \<open>What the engine does to the outside\<close>

text \<open>
  Every call into the hardware or the operating system is an event, appended to a trace
  in program order: peripheral control, the GPIO matrix, \<^verbatim>\<open>digitalWrite\<close> on a wire,
  a write to a field of the \<^verbatim>\<open>I2S0\<close> register block, the two critical sections, the
  creation of the feeder task and of the interrupt.
\<close>

datatype signal = I2S0O_DATA_OUT23_IDX | I2S0O_BCK_OUT_IDX | I2S0O_WS_OUT_IDX
  | I2S_IOEXP_DETACH_PORT_IDX

datatype hw_event =
    Periph_module_reset
  | Periph_module_enable
  | Pin_func_select "32 word"
  | Gpio_set_direction "32 word"
  | Gpio_matrix_out "32 word" signal
  | Digital_write "8 word" bool
  | Reg string nat
  | Int_clr_pending
  | I2S_enter_critical
  | I2S_exit_critical
  | Pulser_enter_critical
  | Pulser_exit_critical
  | Task_create
  | Intr_alloc
  | Intr_enable

datatype i2s_ioexpander_pulser_status_t = PASSTHROUGH | STEPPING

section \<open>The static variables of i2s\_ioexpander.cpp\<close>

text \<open>
  The fields of \<^verbatim>\<open>dma\<close> come first. \<open>dma_buffers_ptr\<close> and \<open>dma_desc_ptr\<close> are the two
  pointers to the arrays, \<open>dma_buffers\<close> and \<open>dma_desc\<close> the contents of the arrays by
  index. \<open>dma_queue\<close> is the content of the FreeRTOS queue, oldest item first.
  \<open>desc_heap\<close> and \<open>buf_heap\<close> hold the descriptors and the buffers by address, and
  \<open>trace\<close> what the code has done to the hardware so far.
\<close>

record i2s_state =
  dma_buffers_ptr :: addr
  dma_buffers :: "nat \<Rightarrow> addr"
  dma_current :: addr
  dma_rw_pos :: "32 word"
  dma_desc_ptr :: addr
  dma_desc :: "nat \<Rightarrow> addr"
  dma_queue :: "addr list"
  i2s_port_data :: "32 word"
  i2s_ioexpander_initialized :: bool
  i2s_ioexpander_pulse_period :: "32 word"
  i2s_ioexpander_remain_time_until_next_pulse :: "32 word"
  i2s_ioexpander_pulse_phase_func :: addr
  i2s_ioexpander_ws_pin :: "8 word"
  i2s_ioexpander_bck_pin :: "8 word"
  i2s_ioexpander_data_pin :: "8 word"
  i2s_ioexpander_pulser_status :: i2s_ioexpander_pulser_status_t
  desc_heap :: "addr \<Rightarrow> lldesc"
  buf_heap :: "addr \<Rightarrow> bytes"
  trace :: "hw_event list"

definition emit :: "hw_event list \<Rightarrow> i2s_state \<Rightarrow> i2s_state" where
  "emit es s = s\<lparr>trace := trace s @ es\<rparr>"

section \<open>The virtual port: i2s\_ioexpander\_write and i2s\_ioexpander\_state\<close>

text \<open>
  Both functions compute \<^verbatim>\<open>1UL << pin\<close> with no check of \<^verbatim>\<open>pin\<close>. For a pin of 32
  or more the shift count reaches the width of \<^verbatim>\<open>unsigned long\<close> on the ESP32 and C++
  leaves the result undefined: the model stops there with \<open>Undefined_shift\<close> rather than
  choose a value. \<^verbatim>\<open>atomic_fetch_or\<close> and \<^verbatim>\<open>atomic_fetch_and\<close> are single steps on the
  port word.
\<close>

datatype fault = Undefined_shift

definition i2s_ioexpander_write :: "8 word \<Rightarrow> 8 word \<Rightarrow> i2s_state \<Rightarrow> fault + i2s_state" where
  "i2s_ioexpander_write pin val s =
     (if unat pin < 32 then
        (let bit_w = (push_bit (unat pin) 1 :: 32 word) in
           if val \<noteq> 0 then Inr (s\<lparr>i2s_port_data := i2s_port_data s OR bit_w\<rparr>)
           else Inr (s\<lparr>i2s_port_data := i2s_port_data s AND NOT bit_w\<rparr>))
      else Inl Undefined_shift)"

definition i2s_ioexpander_state :: "8 word \<Rightarrow> i2s_state \<Rightarrow> fault + 8 word" where
  "i2s_ioexpander_state pin s =
     (if unat pin < 32 then
        (let port_data = i2s_port_data s in
           Inr (if port_data AND push_bit (unat pin) 1 \<noteq> 0 then 1 else 0))
      else Inl Undefined_shift)"

text \<open>
  The values the static variables have before \<^verbatim>\<open>i2s_ioexpander_init\<close> runs: zero
  initialised storage, the port word 0, the three pin numbers \<^verbatim>\<open>(uint8_t) -1\<close>, the
  pulser in \<open>PASSTHROUGH\<close>.
\<close>

definition zero_desc :: lldesc where
  "zero_desc =
     \<lparr>size_f = 0, length_f = 0, offset_f = 0, sosf = 0, eof = 0, owner = 0,
      buf = 0, empty_f = 0\<rparr>"

definition power_on_state :: i2s_state where
  "power_on_state =
     \<lparr>dma_buffers_ptr = 0, dma_buffers = (\<lambda>_. 0), dma_current = 0, dma_rw_pos = 0,
      dma_desc_ptr = 0, dma_desc = (\<lambda>_. 0), dma_queue = [],
      i2s_port_data = 0, i2s_ioexpander_initialized = False,
      i2s_ioexpander_pulse_period = 0,
      i2s_ioexpander_remain_time_until_next_pulse = 0,
      i2s_ioexpander_pulse_phase_func = 0,
      i2s_ioexpander_ws_pin = - 1, i2s_ioexpander_bck_pin = - 1,
      i2s_ioexpander_data_pin = - 1,
      i2s_ioexpander_pulser_status = PASSTHROUGH,
      desc_heap = (\<lambda>_. zero_desc), buf_heap = (\<lambda>_ _. 0), trace = []\<rparr>"

text \<open>The call sequence \<^verbatim>\<open>i2s_ioexpander_write(pin, val); i2s_ioexpander_state(pin)\<close>.\<close>

definition write_then_state :: "8 word \<Rightarrow> 8 word \<Rightarrow> i2s_state \<Rightarrow> fault + 8 word" where
  "write_then_state pin val s =
     (case i2s_ioexpander_write pin val s of
        Inl f \<Rightarrow> Inl f
      | Inr s' \<Rightarrow> i2s_ioexpander_state pin s')"

section \<open>Internal functions\<close>

text \<open>
  \<^verbatim>\<open>gpio_matrix_out_check\<close> takes the pin as a \<^verbatim>\<open>uint32_t\<close> and skips the pin \<^verbatim>\<open>-1\<close>,
  that is \<open>0xFFFFFFFF\<close>. Its callers pass \<^verbatim>\<open>uint8_t\<close> pin numbers, which widen to
  0..255.
\<close>

definition gpio_matrix_out_check :: "32 word \<Rightarrow> signal \<Rightarrow> i2s_state \<Rightarrow> i2s_state" where
  "gpio_matrix_out_check gpio signal_idx s =
     (if gpio \<noteq> - 1 then
        emit [Pin_func_select gpio, Gpio_set_direction gpio, Gpio_matrix_out gpio signal_idx] s
      else s)"

definition i2s_reset_fifo_without_lock :: "i2s_state \<Rightarrow> i2s_state" where
  "i2s_reset_fifo_without_lock s =
     emit [Reg ''conf.rx_fifo_reset'' 1, Reg ''conf.rx_fifo_reset'' 0,
           Reg ''conf.tx_fifo_reset'' 1, Reg ''conf.tx_fifo_reset'' 0] s"

definition i2s_reset_fifo :: "i2s_state \<Rightarrow> i2s_state" where
  "i2s_reset_fifo s =
     emit [I2S_exit_critical] (i2s_reset_fifo_without_lock (emit [I2S_enter_critical] s))"

text \<open>
  The block that readies the descriptor of buffer \<open>buf_idx\<close>; \<^verbatim>\<open>i2s_clear_dma_buffers\<close>
  and \<^verbatim>\<open>i2s_ioexpander_init\<close> both contain it. The arrays \<^verbatim>\<open>dma.buffers\<close> and
  \<^verbatim>\<open>dma.desc\<close> are functions from the index to the pointer stored there.
\<close>

definition ready_desc :: "nat \<Rightarrow> i2s_state \<Rightarrow> i2s_state" where
  "ready_desc buf_idx s =
     (let d = dma_desc s buf_idx in
        s\<lparr>desc_heap := (desc_heap s)(d := (desc_heap s d)
            \<lparr>owner := 1, eof := 1, sosf := 0,
             length_f := of_nat DMA_BUF_LEN, size_f := of_nat DMA_BUF_LEN,
             buf := dma_buffers s buf_idx, offset_f := 0,
             empty_f := (if buf_idx < DMA_BUF_COUNT - 1 then dma_desc s (buf_idx + 1)
                         else dma_desc s 0)\<rparr>)\<rparr>)"

text \<open>The loop \<^verbatim>\<open>for (int i = 0; i < n; i++) p[i] = w;\<close> over 32-bit samples.\<close>

definition fill_samples :: "nat \<Rightarrow> 32 word \<Rightarrow> bytes \<Rightarrow> bytes" where
  "fill_samples n w m = fold (\<lambda>i m. store32 m i w) [0..<n] m"

definition clear_dma_buffer :: "nat \<Rightarrow> i2s_state \<Rightarrow> i2s_state" where
  "clear_dma_buffer buf_idx s =
     (let port_data = i2s_port_data s;
          b = dma_buffers s buf_idx;
          s = s\<lparr>buf_heap := (buf_heap s)(b := fill_samples DMA_SAMPLE_COUNT port_data (buf_heap s b))\<rparr>
      in ready_desc buf_idx s)"

definition i2s_clear_dma_buffers :: "i2s_state \<Rightarrow> int \<times> i2s_state" where
  "i2s_clear_dma_buffers s =
     (if \<not> i2s_ioexpander_initialized s then (- 1, s)
      else (0, fold clear_dma_buffer [0..<DMA_BUF_COUNT] s))"

definition i2s_gpio_attach :: "8 word \<Rightarrow> 8 word \<Rightarrow> 8 word \<Rightarrow> i2s_state \<Rightarrow> i2s_state" where
  "i2s_gpio_attach ws bck data s =
     gpio_matrix_out_check (ucast ws) I2S0O_WS_OUT_IDX
       (gpio_matrix_out_check (ucast bck) I2S0O_BCK_OUT_IDX
          (gpio_matrix_out_check (ucast data) I2S0O_DATA_OUT23_IDX s))"

definition i2s_gpio_detach :: "8 word \<Rightarrow> 8 word \<Rightarrow> 8 word \<Rightarrow> i2s_state \<Rightarrow> i2s_state" where
  "i2s_gpio_detach ws bck data s =
     gpio_matrix_out_check (ucast data) I2S_IOEXP_DETACH_PORT_IDX
       (gpio_matrix_out_check (ucast bck) I2S_IOEXP_DETACH_PORT_IDX
          (gpio_matrix_out_check (ucast ws) I2S_IOEXP_DETACH_PORT_IDX s))"

text \<open>
  One round of the loop of \<^verbatim>\<open>i2s_gpio_shiftout\<close>: the data wire gets
  \<^verbatim>\<open>!!(port_data & (1 << (31 - i)))\<close>, then the clock wire goes high and low.
\<close>

definition shiftout_bit :: "32 word \<Rightarrow> nat \<Rightarrow> i2s_state \<Rightarrow> i2s_state" where
  "shiftout_bit port_data i s =
     emit [Digital_write (i2s_ioexpander_data_pin s) (port_data AND push_bit (31 - i) 1 \<noteq> 0),
           Digital_write (i2s_ioexpander_bck_pin s) True,
           Digital_write (i2s_ioexpander_bck_pin s) False] s"

definition i2s_gpio_shiftout :: "32 word \<Rightarrow> i2s_state \<Rightarrow> i2s_state" where
  "i2s_gpio_shiftout port_data s =
     (let s = emit [Digital_write (i2s_ioexpander_ws_pin s) False] s;
          s = fold (shiftout_bit port_data) [0..<32] s
      in emit [Digital_write (i2s_ioexpander_ws_pin s) True] s)"

definition i2s_stop :: "i2s_state \<Rightarrow> i2s_state" where
  "i2s_stop s =
     (let s = emit [I2S_enter_critical,
                    Reg ''out_link.stop'' 1,
                    Reg ''fifo_conf.dscr_en'' 0,
                    Reg ''conf.tx_start'' 0,
                    Digital_write (i2s_ioexpander_ws_pin s) False] s;
          s = i2s_gpio_detach (i2s_ioexpander_ws_pin s) (i2s_ioexpander_bck_pin s)
                (i2s_ioexpander_data_pin s) s;
          s = emit [Digital_write (i2s_ioexpander_bck_pin s) False] s;
          port_data = i2s_port_data s;
          s = i2s_gpio_shiftout port_data s
      in emit [Int_clr_pending, I2S_exit_critical] s)"

definition i2s_start :: "i2s_state \<Rightarrow> int \<times> i2s_state" where
  "i2s_start s =
     (if \<not> i2s_ioexpander_initialized s then (- 1, s)
      else
        (let port_data = i2s_port_data s;
             s = i2s_gpio_shiftout port_data s;
             s = i2s_gpio_attach (i2s_ioexpander_ws_pin s) (i2s_ioexpander_bck_pin s)
                   (i2s_ioexpander_data_pin s) s;
             s = emit [I2S_enter_critical] s;
             s = i2s_reset_fifo_without_lock s;
             s = emit [Reg ''lc_conf.in_rst'' 1, Reg ''lc_conf.in_rst'' 0,
                       Reg ''lc_conf.out_rst'' 1, Reg ''lc_conf.out_rst'' 0,
                       Reg ''conf.tx_reset'' 1, Reg ''conf.tx_reset'' 0,
                       Reg ''conf.rx_reset'' 1, Reg ''conf.rx_reset'' 0,
                       Reg ''out_link.addr'' (dma_desc s 0),
                       Reg ''fifo_conf.dscr_en'' 1,
                       Reg ''int_clr.val'' 4294967295,
                       Reg ''out_link.start'' 1,
                       Reg ''conf.tx_start'' 1,
                       I2S_exit_critical] s
         in (0, s)))"

definition i2s_ioexpander_reset :: "i2s_state \<Rightarrow> int \<times> i2s_state" where
  "i2s_ioexpander_reset s =
     (let s = i2s_stop s;
          s = snd (i2s_clear_dma_buffers s);
          s = snd (i2s_start s)
      in (0, s))"

section \<open>The completion queue\<close>

text \<open>
  \<^verbatim>\<open>dma.queue\<close> is a FreeRTOS queue created with room for \<^const>\<open>DMA_BUF_COUNT\<close>
  descriptor pointers. Sending appends at the tail when there is room and drops the item
  otherwise; receiving takes the item at the head.
\<close>

definition xQueueIsQueueFullFromISR :: "addr list \<Rightarrow> bool" where
  "xQueueIsQueueFullFromISR q = (DMA_BUF_COUNT \<le> length q)"

definition xQueueSendFromISR :: "addr \<Rightarrow> addr list \<Rightarrow> addr list" where
  "xQueueSendFromISR item q = (if length q < DMA_BUF_COUNT then q @ [item] else q)"

section \<open>I2S DMA interrupt handler\<close>

text \<open>The loop \<^verbatim>\<open>for (int i = 0; i < n; i++) p[i] = b;\<close> through a byte pointer.\<close>

definition fill_bytes :: "nat \<Rightarrow> 8 word \<Rightarrow> bytes \<Rightarrow> bytes" where
  "fill_bytes n b m = fold (\<lambda>i m. store8 m i b) [0..<n] m"

text \<open>
  The handler reads two things from the hardware, which are its arguments here: the flag
  \<^verbatim>\<open>I2S0.int_st.out_eof\<close> and the address \<^verbatim>\<open>I2S0.out_eof_des_addr\<close> of the descriptor
  that was just sent. In the recovery branch it stores through \<^verbatim>\<open>front_desc->buf\<close>, which
  \<^verbatim>\<open>lldesc_t\<close> declares as a pointer to bytes: \<^verbatim>\<open>front_desc->buf[i] = port_data\<close> stores
  the low byte of the port word at byte offset \<open>i\<close>. Waking the feeder task
  (\<^verbatim>\<open>portYIELD_FROM_ISR\<close>) is left to the scheduler and is not part of the state.
\<close>

definition i2s_intr_handler_default :: "bool \<Rightarrow> addr \<Rightarrow> i2s_state \<Rightarrow> i2s_state" where
  "i2s_intr_handler_default out_eof out_eof_des_addr s =
     (let s =
        (if out_eof then
           (let finish_desc = out_eof_des_addr;
                s = (if xQueueIsQueueFullFromISR (dma_queue s) then
                       (case dma_queue s of
                          [] \<Rightarrow> s
                        | front_desc # rest \<Rightarrow>
                            (let s = s\<lparr>dma_queue := rest\<rparr>;
                                 port_data = i2s_port_data s;
                                 b = buf (desc_heap s front_desc);
                                 s = s\<lparr>buf_heap := (buf_heap s)
                                       (b := fill_bytes DMA_SAMPLE_COUNT (ucast port_data) (buf_heap s b))\<rparr>
                             in s\<lparr>desc_heap := (desc_heap s)
                                   (front_desc := (desc_heap s front_desc)
                                      \<lparr>length_f := of_nat DMA_BUF_LEN\<rparr>)\<rparr>))
                     else s)
            in s\<lparr>dma_queue := xQueueSendFromISR finish_desc (dma_queue s)\<rparr>)
         else s)
      in emit [Int_clr_pending] s)"

section \<open>I2S bitstream generator task\<close>

text \<open>
  The pulse callback is a function pointer; \<open>callbacks\<close> says what the function at an
  address does to the state when it is called (0 is \<^verbatim>\<open>NULL\<close>).
\<close>

type_synonym callbacks = "addr \<Rightarrow> i2s_state \<Rightarrow> i2s_state"

text \<open>
  The statement \<^verbatim>\<open>dma.current[dma.rw_pos++] = w\<close>, which the task and
  \<^verbatim>\<open>i2s_ioexpander_push_sample\<close> share: \<^verbatim>\<open>dma.current\<close> is a \<^verbatim>\<open>uint32_t *\<close> into
  the buffer that is being filled, and nothing compares the cursor with the size of
  that buffer here.
\<close>

definition push_one :: "32 word \<Rightarrow> i2s_state \<Rightarrow> i2s_state" where
  "push_one w s =
     s\<lparr>buf_heap := (buf_heap s)
          (dma_current s := store32 (buf_heap s (dma_current s)) (unat (dma_rw_pos s)) w),
        dma_rw_pos := dma_rw_pos s + 1\<rparr>"

text \<open>One round of the \<^verbatim>\<open>while\<close> loop that fills a buffer in \<open>STEPPING\<close> mode.\<close>

definition stepping_round :: "callbacks \<Rightarrow> i2s_state \<Rightarrow> i2s_state" where
  "stepping_round env s =
     (if i2s_ioexpander_remain_time_until_next_pulse s < of_nat I2S_IOEXP_USEC_PER_PULSE
         \<and> i2s_ioexpander_pulser_status s = STEPPING
         \<and> i2s_ioexpander_pulse_phase_func s \<noteq> 0
      then
        (let s = emit [Pulser_exit_critical] s;
             s = env (i2s_ioexpander_pulse_phase_func s) s;
             s = emit [Pulser_enter_critical] s
         in s\<lparr>i2s_ioexpander_remain_time_until_next_pulse := i2s_ioexpander_pulse_period s\<rparr>)
      else
        (let s = push_one (i2s_port_data s) s
         in if of_nat I2S_IOEXP_USEC_PER_PULSE \<le> i2s_ioexpander_remain_time_until_next_pulse s
            then s\<lparr>i2s_ioexpander_remain_time_until_next_pulse :=
                     i2s_ioexpander_remain_time_until_next_pulse s - of_nat I2S_IOEXP_USEC_PER_PULSE\<rparr>
            else s\<lparr>i2s_ioexpander_remain_time_until_next_pulse := 0\<rparr>))"

definition stepping_continues :: "i2s_state \<Rightarrow> bool" where
  "stepping_continues s = (unat (dma_rw_pos s) < DMA_SAMPLE_COUNT - SAMPLE_SAFE_COUNT)"

text \<open>
  The loop need not end: a callback that pushes no sample while the pulse period is below
  one sample period is called again and again. \<open>stepping_loop\<close> runs it on fuel, \<open>None\<close>
  when the fuel is used up; \<open>stepping_after\<close> is the state after at most \<open>n\<close> rounds.
\<close>

fun stepping_loop :: "callbacks \<Rightarrow> nat \<Rightarrow> i2s_state \<Rightarrow> i2s_state option" where
  "stepping_loop env 0 s = None"
| "stepping_loop env (Suc fuel) s =
     (if stepping_continues s then stepping_loop env fuel (stepping_round env s) else Some s)"

fun stepping_after :: "callbacks \<Rightarrow> nat \<Rightarrow> i2s_state \<Rightarrow> i2s_state" where
  "stepping_after env 0 s = s"
| "stepping_after env (Suc n) s =
     (if stepping_continues s then stepping_after env n (stepping_round env s) else s)"

text \<open>
  The statement \<^verbatim>\<open>dma_desc->length = dma.rw_pos * I2S_SAMPLE_SIZE\<close> after the loop: a
  \<^verbatim>\<open>uint32_t\<close> product stored in the 12-bit field.
\<close>

definition set_filled_length :: "addr \<Rightarrow> i2s_state \<Rightarrow> i2s_state" where
  "set_filled_length cur_desc s =
     s\<lparr>desc_heap := (desc_heap s)
          (cur_desc := (desc_heap s cur_desc)
             \<lparr>length_f := ucast (dma_rw_pos s * of_nat I2S_SAMPLE_SIZE)\<rparr>)\<rparr>"

text \<open>
  What the task does with one descriptor that it has received from the queue (the local
  \<^verbatim>\<open>dma_desc\<close> of the source, \<open>cur_desc\<close> here), up to the point where it waits for the next one.
\<close>

definition i2sIOExpanderTask_refill ::
  "callbacks \<Rightarrow> nat \<Rightarrow> addr \<Rightarrow> i2s_state \<Rightarrow> i2s_state option" where
  "i2sIOExpanderTask_refill env fuel cur_desc s =
     (let s = s\<lparr>dma_current := buf (desc_heap s cur_desc)\<rparr>;
          s = emit [Pulser_enter_critical] s
      in if i2s_ioexpander_pulser_status s = STEPPING then
           (case stepping_loop env fuel (s\<lparr>dma_rw_pos := 0\<rparr>) of
              None \<Rightarrow> None
            | Some s \<Rightarrow> Some (emit [Pulser_exit_critical] (set_filled_length cur_desc s)))
         else
           (let port_data = i2s_port_data s;
                s = s\<lparr>buf_heap := (buf_heap s)
                      (dma_current s := fill_samples DMA_SAMPLE_COUNT port_data
                         (buf_heap s (dma_current s)))\<rparr>;
                s = s\<lparr>dma_rw_pos := of_nat DMA_SAMPLE_COUNT\<rparr>;
                s = s\<lparr>desc_heap := (desc_heap s)
                      (cur_desc := (desc_heap s cur_desc)\<lparr>length_f := of_nat DMA_BUF_LEN\<rparr>)\<rparr>
            in Some (emit [Pulser_exit_critical] s)))"

text \<open>
  One pass of the task's endless loop. \<^verbatim>\<open>xQueueReceive\<close> waits for ever on an empty
  queue: the pass then has no result, as when the fuel runs out.
\<close>

definition i2sIOExpanderTask_pass :: "callbacks \<Rightarrow> nat \<Rightarrow> i2s_state \<Rightarrow> i2s_state option" where
  "i2sIOExpanderTask_pass env fuel s =
     (case dma_queue s of
        [] \<Rightarrow> None
      | cur_desc # rest \<Rightarrow> i2sIOExpanderTask_refill env fuel cur_desc (s\<lparr>dma_queue := rest\<rparr>))"

section \<open>External functions\<close>

text \<open>
  The \<^verbatim>\<open>do ... while (n < num)\<close> loop of \<^verbatim>\<open>i2s_ioexpander_push_sample\<close>, entered with
  the number \<open>n\<close> of samples pushed so far. All its counters are \<^verbatim>\<open>uint32_t\<close>.
\<close>

function push_sample_loop ::
  "32 word \<Rightarrow> 32 word \<Rightarrow> 32 word \<Rightarrow> i2s_state \<Rightarrow> 32 word \<times> i2s_state" where
  "push_sample_loop num port_data n s =
     (let s = push_one port_data s;
          n = n + 1
      in if n < num then push_sample_loop num port_data n s else (n, s))"
  by pat_completeness auto
termination
proof (relation "measure (\<lambda>(num, port_data, n, s). unat (num - n - 1))")
  show "wf (measure (\<lambda>(num, port_data, n, s). unat (num - n - 1)))"
    by simp
next
  fix num port_data n :: "32 word" and s x :: i2s_state and xa :: "32 word"
  assume xa: "xa = n + 1" and lt: "xa < num"
  have pred: "unat (w - 1) < unat w" if "w \<noteq> 0" for w :: "32 word"
  proof -
    from that have "0 < unat w"
      by (simp add: unat_gt_0)
    moreover from that have "unat (w - 1) = unat w - 1"
      by (rule unat_minus_one)
    ultimately show ?thesis
      by arith
  qed
  define w where "w = num - n - 1"
  from lt have "num - xa \<noteq> 0"
    by auto
  then have "w \<noteq> 0"
    using xa by (simp add: w_def diff_diff_eq)
  then have "unat (w - 1) < unat w"
    by (rule pred)
  moreover have "num - xa - 1 = w - 1"
    using xa by (simp add: w_def)
  ultimately have "unat (num - xa - 1) < unat (num - n - 1)"
    by (simp only: w_def)
  then show "((num, port_data, xa, x), (num, port_data, n, s))
      \<in> measure (\<lambda>(num, port_data, n, s). unat (num - n - 1))"
    by (simp only: in_measure split_conv)
qed

definition i2s_ioexpander_push_sample :: "32 word \<Rightarrow> i2s_state \<Rightarrow> 32 word \<times> i2s_state" where
  "i2s_ioexpander_push_sample num s =
     (if SAMPLE_SAFE_COUNT < unat num then (0, s)
      else (let port_data = i2s_port_data s in push_sample_loop num port_data 0 s))"

text \<open>\<open>k\<close> times \<^const>\<open>push_one\<close>: what \<open>k\<close> rounds of that loop do to the state.\<close>

fun push_many :: "nat \<Rightarrow> 32 word \<Rightarrow> i2s_state \<Rightarrow> i2s_state" where
  "push_many 0 port_data s = s"
| "push_many (Suc k) port_data s = push_many k port_data (push_one port_data s)"

definition i2s_ioexpander_set_passthrough :: "i2s_state \<Rightarrow> i2s_state" where
  "i2s_ioexpander_set_passthrough s =
     emit [Pulser_exit_critical]
       ((emit [Pulser_enter_critical] s)\<lparr>i2s_ioexpander_pulser_status := PASSTHROUGH\<rparr>)"

definition i2s_ioexpander_set_stepping :: "i2s_state \<Rightarrow> i2s_state" where
  "i2s_ioexpander_set_stepping s =
     emit [Pulser_exit_critical]
       ((emit [Pulser_enter_critical] s)\<lparr>i2s_ioexpander_pulser_status := STEPPING\<rparr>)"

definition i2s_ioexpander_set_pulse_period :: "32 word \<Rightarrow> i2s_state \<Rightarrow> i2s_state" where
  "i2s_ioexpander_set_pulse_period period s = s\<lparr>i2s_ioexpander_pulse_period := period\<rparr>"

definition i2s_ioexpander_register_pulse_callback :: "addr \<Rightarrow> i2s_state \<Rightarrow> i2s_state" where
  "i2s_ioexpander_register_pulse_callback func s = s\<lparr>i2s_ioexpander_pulse_phase_func := func\<rparr>"

text \<open>A state in the middle of a refill: buffer 16 is being filled, the cursor is at 7.\<close>

definition stepping_state :: i2s_state where
  "stepping_state = power_on_state\<lparr>dma_current := 16, dma_rw_pos := 7, i2s_port_data := 5\<rparr>"

section \<open>Initialize function\<close>

text \<open>
  The fields of \<^verbatim>\<open>i2s_ioexpander_init_t\<close> that \<^verbatim>\<open>i2s_ioexpander_init\<close> reads.
\<close>

record i2s_ioexpander_init_t =
  ws_pin :: "8 word"
  bck_pin :: "8 word"
  data_pin :: "8 word"
  pulse_phase_func :: addr
  pulse_period :: "32 word"

text \<open>
  What the allocator answers to the calls of \<^verbatim>\<open>i2s_ioexpander_init\<close>, 0 for a null
  pointer: the \<^verbatim>\<open>malloc\<close> of the array of buffer pointers, the \<^verbatim>\<open>heap_caps_calloc\<close> of the
  buffer with a given index, the \<^verbatim>\<open>malloc\<close> of the array of descriptor pointers, the
  \<^verbatim>\<open>heap_caps_malloc\<close> of the descriptor with a given index.
\<close>

record allocations =
  buffers_array :: addr
  buffer_at :: "nat \<Rightarrow> addr"
  desc_array :: addr
  descriptor_at :: "nat \<Rightarrow> addr"

text \<open>
  The two allocation loops, from index \<open>buf_idx\<close> on. The flag is \<open>False\<close> when the loop
  left the function with \<^verbatim>\<open>return -1\<close>; the pointer, null or not, is in the array by
  then. \<^verbatim>\<open>heap_caps_calloc\<close> hands out \<^const>\<open>DMA_BUF_LEN\<close> zero bytes, \<^verbatim>\<open>heap_caps_malloc\<close>
  a descriptor with whatever the memory held.
\<close>

function alloc_buffers :: "allocations \<Rightarrow> nat \<Rightarrow> i2s_state \<Rightarrow> bool \<times> i2s_state" where
  "alloc_buffers al buf_idx s =
     (if buf_idx < DMA_BUF_COUNT then
        (let p = buffer_at al buf_idx;
             s = s\<lparr>dma_buffers := (dma_buffers s)(buf_idx := p),
                   buf_heap := (if p = 0 then buf_heap s
                                else (buf_heap s)(p := (\<lambda>j. if j < DMA_BUF_LEN then 0
                                                           else buf_heap s p j)))\<rparr>
         in if dma_buffers s buf_idx = 0 then (False, s)
            else alloc_buffers al (buf_idx + 1) s)
      else (True, s))"
  by pat_completeness auto
termination
  by (relation "measure (\<lambda>(al, buf_idx, s). DMA_BUF_COUNT - buf_idx)") auto

function alloc_descs :: "allocations \<Rightarrow> nat \<Rightarrow> i2s_state \<Rightarrow> bool \<times> i2s_state" where
  "alloc_descs al buf_idx s =
     (if buf_idx < DMA_BUF_COUNT then
        (let s = s\<lparr>dma_desc := (dma_desc s)(buf_idx := descriptor_at al buf_idx)\<rparr>
         in if dma_desc s buf_idx = 0 then (False, s)
            else alloc_descs al (buf_idx + 1) s)
      else (True, s))"
  by pat_completeness auto
termination
  by (relation "measure (\<lambda>(al, buf_idx, s). DMA_BUF_COUNT - buf_idx)") auto

text \<open>The part of \<^verbatim>\<open>i2s_ioexpander_init\<close> that follows the allocations.\<close>

definition init_after_alloc :: "i2s_ioexpander_init_t \<Rightarrow> i2s_state \<Rightarrow> i2s_state" where
  "init_after_alloc init_param s =
     (let s = fold ready_desc [0..<DMA_BUF_COUNT] s;
          s = s\<lparr>dma_rw_pos := 0, dma_current := 0, dma_queue := []\<rparr>;
          s = emit [Reg ''out_link.addr'' (dma_desc s 0),
                    Reg ''out_link.stop'' 1,
                    Reg ''conf.tx_start'' 0,
                    Int_clr_pending] s;
          s = i2s_reset_fifo s;
          s = emit [Reg ''conf.tx_reset'' 1, Reg ''conf.tx_reset'' 0,
                    Reg ''conf.rx_reset'' 1, Reg ''conf.rx_reset'' 0,
                    Reg ''lc_conf.in_rst'' 1, Reg ''lc_conf.in_rst'' 0,
                    Reg ''lc_conf.out_rst'' 1, Reg ''lc_conf.out_rst'' 0,
                    Reg ''lc_conf.check_owner'' 0,
                    Reg ''lc_conf.out_loop_test'' 0,
                    Reg ''lc_conf.out_auto_wrback'' 0,
                    Reg ''lc_conf.out_data_burst_en'' 0,
                    Reg ''lc_conf.outdscr_burst_en'' 0,
                    Reg ''lc_conf.out_no_restart_clr'' 0,
                    Reg ''lc_conf.indscr_burst_en'' 0,
                    Reg ''lc_conf.out_eof_mode'' 1,
                    Reg ''conf2.lcd_en'' 0,
                    Reg ''conf2.camera_en'' 0,
                    Reg ''pdm_conf.pcm2pdm_conv_en'' 0,
                    Reg ''pdm_conf.pdm2pcm_conv_en'' 0,
                    Reg ''fifo_conf.dscr_en'' 0,
                    Reg ''conf_chan.tx_chan_mod'' 1,
                    Reg ''fifo_conf.tx_fifo_mod'' 3,
                    Reg ''conf.tx_mono'' 0,
                    Reg ''conf_chan.rx_chan_mod'' 1,
                    Reg ''fifo_conf.rx_fifo_mod'' 3,
                    Reg ''conf.rx_mono'' 0,
                    Reg ''fifo_conf.dscr_en'' 1,
                    Reg ''conf.tx_start'' 0,
                    Reg ''conf.rx_start'' 0,
                    Reg ''conf.tx_msb_right'' 1,
                    Reg ''conf.tx_right_first'' 0,
                    Reg ''conf.tx_slave_mod'' 0,
                    Reg ''fifo_conf.tx_fifo_mod_force_en'' 1,
                    Reg ''pdm_conf.rx_pdm_en'' 0,
                    Reg ''pdm_conf.tx_pdm_en'' 0,
                    Reg ''conf.tx_short_sync'' 0,
                    Reg ''conf.rx_short_sync'' 0,
                    Reg ''conf.tx_msb_shift'' 0,
                    Reg ''conf.rx_msb_shift'' 0,
                    Reg ''clkm_conf.clka_en'' 0,
                    Reg ''clkm_conf.clkm_div_num'' 5,
                    Reg ''clkm_conf.clkm_div_b'' 0,
                    Reg ''clkm_conf.clkm_div_a'' 0,
                    Reg ''sample_rate_conf.tx_bck_div_num'' 2,
                    Reg ''sample_rate_conf.rx_bck_div_num'' 2,
                    Reg ''sample_rate_conf.tx_bits_mod'' 32,
                    Reg ''sample_rate_conf.rx_bits_mod'' 32,
                    Reg ''int_ena.out_eof'' 1,
                    Reg ''int_ena.out_dscr_err'' 0,
                    Reg ''int_ena.out_total_eof'' 0,
                    Reg ''int_ena.out_done'' 0] s;
          s = s\<lparr>i2s_ioexpander_pulse_period := pulse_period init_param,
                i2s_ioexpander_pulse_phase_func := pulse_phase_func init_param\<rparr>;
          s = emit [Task_create, Intr_alloc, Intr_enable] s;
          s = s\<lparr>i2s_ioexpander_ws_pin := ws_pin init_param,
                i2s_ioexpander_bck_pin := bck_pin init_param,
                i2s_ioexpander_data_pin := data_pin init_param,
                i2s_ioexpander_initialized := True\<rparr>
      in snd (i2s_start s))"

text \<open>
  \<^verbatim>\<open>i2s_ioexpander_init\<close>, with every \<^verbatim>\<open>return -1\<close> of the source as a branch. The queue
  is taken to be created; the source does not test the result of \<^verbatim>\<open>xQueueCreate\<close>.
\<close>

definition i2s_ioexpander_init ::
  "allocations \<Rightarrow> i2s_ioexpander_init_t \<Rightarrow> i2s_state \<Rightarrow> int \<times> i2s_state" where
  "i2s_ioexpander_init al init_param s =
     (if i2s_ioexpander_initialized s then (- 1, s)
      else
        (let s = emit [Periph_module_reset, Periph_module_enable] s;
             s = i2s_gpio_attach (ws_pin init_param) (bck_pin init_param) (data_pin init_param) s;
             s = s\<lparr>dma_buffers_ptr := buffers_array al\<rparr>
         in if dma_buffers_ptr s = 0 then (- 1, s)
            else
              (case alloc_buffers al 0 s of
                 (False, s) \<Rightarrow> (- 1, s)
               | (True, s) \<Rightarrow>
                   (let s = s\<lparr>dma_desc_ptr := desc_array al\<rparr>
                    in if dma_desc_ptr s = 0 then (- 1, s)
                       else
                         (case alloc_descs al 0 s of
                            (False, s) \<Rightarrow> (- 1, s)
                          | (True, s) \<Rightarrow> (0, init_after_alloc init_param s))))))"

text \<open>Some allocation of \<^verbatim>\<open>i2s_ioexpander_init\<close> fails.\<close>

definition allocation_fails :: "allocations \<Rightarrow> bool" where
  "allocation_fails al =
     (buffers_array al = 0 \<or> (\<exists>k < DMA_BUF_COUNT. buffer_at al k = 0)
      \<or> desc_array al = 0 \<or> (\<exists>k < DMA_BUF_COUNT. descriptor_at al k = 0))"

text \<open>What the engine has done to the hardware when the first allocation is reached.\<close>

definition attach_events :: "8 word \<Rightarrow> signal \<Rightarrow> hw_event list" where
  "attach_events p sig =
     [Pin_func_select (ucast p), Gpio_set_direction (ucast p), Gpio_matrix_out (ucast p) sig]"

definition before_alloc_events :: "i2s_ioexpander_init_t \<Rightarrow> hw_event list" where
  "before_alloc_events init_param =
     [Periph_module_reset, Periph_module_enable]
     @ attach_events (data_pin init_param) I2S0O_DATA_OUT23_IDX
     @ attach_events (bck_pin init_param) I2S0O_BCK_OUT_IDX
     @ attach_events (ws_pin init_param) I2S0O_WS_OUT_IDX"

text \<open>An allocator out of memory, one that fails at the last descriptor, and a caller.\<close>

definition no_memory :: allocations where
  "no_memory = \<lparr>buffers_array = 0, buffer_at = (\<lambda>_. 0), desc_array = 0, descriptor_at = (\<lambda>_. 0)\<rparr>"

definition memory_short :: allocations where
  "memory_short =
     \<lparr>buffers_array = 50, buffer_at = (\<lambda>i. 200 + i), desc_array = 60,
      descriptor_at = (\<lambda>i. if i = 4 then 0 else 100 + i)\<rparr>"

definition board_pins :: i2s_ioexpander_init_t where
  "board_pins = \<lparr>ws_pin = 17, bck_pin = 22, data_pin = 21, pulse_phase_func = 1, pulse_period = 100\<rparr>"

section \<open>What the specification asks of the wires and of the ring\<close>

text \<open>
  The wire protocol of the external shift registers, in the words of the specification:
  word-select low, then the 32 bits of the word from bit 31 down to bit 0, each put on the
  data wire and clocked in by pulsing the clock wire high and low, then word-select high
  to latch.
\<close>

definition shift_register_frame :: "8 word \<Rightarrow> 8 word \<Rightarrow> 8 word \<Rightarrow> 32 word \<Rightarrow> hw_event list" where
  "shift_register_frame ws bck data w =
     [Digital_write ws False]
     @ concat (map (\<lambda>b. [Digital_write data (bit w b), Digital_write bck True,
                          Digital_write bck False]) (rev [0..<32]))
     @ [Digital_write ws True]"

text \<open>Handing one wire back from the peripheral to plain output mode.\<close>

definition detach_events :: "8 word \<Rightarrow> hw_event list" where
  "detach_events p =
     [Pin_func_select (ucast p), Gpio_set_direction (ucast p),
      Gpio_matrix_out (ucast p) I2S_IOEXP_DETACH_PORT_IDX]"

text \<open>
  The ``ready'' state of the descriptor of buffer \<open>k\<close>: owned by the hardware, raising
  the interrupt at its end, full length, pointing at buffer \<open>k\<close> and linked to the
  descriptor of the next buffer, the last one back to the first.
\<close>

definition desc_is_ready :: "i2s_state \<Rightarrow> nat \<Rightarrow> lldesc \<Rightarrow> bool" where
  "desc_is_ready s k d =
     (owner d = 1 \<and> eof d = 1 \<and> sosf d = 0 \<and> offset_f d = 0
      \<and> unat (length_f d) = DMA_BUF_LEN \<and> unat (size_f d) = DMA_BUF_LEN
      \<and> buf d = dma_buffers s k
      \<and> empty_f d = dma_desc s ((k + 1) mod DMA_BUF_COUNT))"

text \<open>Every one of the \<^const>\<open>DMA_SAMPLE_COUNT\<close> samples of a buffer is the word \<open>w\<close>.\<close>

definition all_samples :: "32 word \<Rightarrow> bytes \<Rightarrow> bool" where
  "all_samples w m = (\<forall>i < DMA_SAMPLE_COUNT. load32 m i = w)"

section \<open>Sample states\<close>

text \<open>Before initialisation, with a port word and one descriptor whose buffer is at 16.\<close>

definition replay_state :: i2s_state where
  "replay_state =
     power_on_state\<lparr>i2s_port_data := 165,
       desc_heap := (\<lambda>_. zero_desc)(1 := zero_desc\<lparr>buf := 16\<rparr>)\<rparr>"

text \<open>
  A running engine: descriptors at 100 to 104, their buffers at 200 to 204, every byte of
  every buffer the stale value \<open>0xEE\<close>, and the port word \<open>0x12345678\<close>.
\<close>

definition running_state :: i2s_state where
  "running_state =
     power_on_state\<lparr>i2s_ioexpander_initialized := True,
       dma_desc := (\<lambda>i. 100 + i), dma_buffers := (\<lambda>i. 200 + i),
       desc_heap := (\<lambda>a. zero_desc\<lparr>buf := a + 100\<rparr>),
       buf_heap := (\<lambda>_ _. 238),
       i2s_port_data := 305419896,
       i2s_ioexpander_ws_pin := 17, i2s_ioexpander_bck_pin := 22, i2s_ioexpander_data_pin := 21\<rparr>"

text \<open>The same engine when the feeder task has taken nothing from the queue for five buffers.\<close>

definition overflow_state :: i2s_state where
  "overflow_state = running_state\<lparr>dma_queue := [100, 101, 102, 103, 104]\<rparr>"

section \<open>The obligation of the pulse callback\<close>

text \<open>
  The comment in the task asks of the callback that it ``should be pushed into buffer max
  DMA\_SAMPLE\_SAFE\_COUNT'': whatever function is called, and in whatever state, it leaves
  the cursor at most \<^const>\<open>SAMPLE_SAFE_COUNT\<close> samples further than it found it.
\<close>

definition callback_within_margin :: "callbacks \<Rightarrow> bool" where
  "callback_within_margin env =
     (\<forall>f s. unat (dma_rw_pos (env f s)) \<le> unat (dma_rw_pos s) + SAMPLE_SAFE_COUNT)"

text \<open>A callback that pushes five samples with \<^const>\<open>i2s_ioexpander_push_sample\<close>.\<close>

definition pulse_callbacks :: callbacks where
  "pulse_callbacks = (\<lambda>f s. snd (i2s_ioexpander_push_sample 5 s))"

text \<open>
  The running engine in \<open>STEPPING\<close> mode with a callback registered, a pulse due at once
  and the pulse period 0, in the middle of filling buffer 200.
\<close>

definition pulse_state :: i2s_state where
  "pulse_state =
     running_state\<lparr>i2s_ioexpander_pulser_status := STEPPING,
       i2s_ioexpander_pulse_phase_func := 1,
       i2s_ioexpander_pulse_period := 0,
       i2s_ioexpander_remain_time_until_next_pulse := 0,
       dma_current := 200, dma_rw_pos := 7\<rparr>"

text \<open>The control block of \<^const>\<open>pulse_state\<close>: every round of the loop calls the callback.\<close>

definition pulsing :: "i2s_state \<Rightarrow> bool" where
  "pulsing t =
     (i2s_ioexpander_pulser_status t = STEPPING \<and> i2s_ioexpander_pulse_phase_func t = 1
      \<and> i2s_ioexpander_pulse_period t = 0 \<and> i2s_ioexpander_remain_time_until_next_pulse t = 0)"

section \<open>Properties of the memory model\<close>

lemma word32_of_bytes:
  "ucast (ucast w :: 8 word) OR push_bit 8 (ucast (ucast (drop_bit 8 w) :: 8 word))
     OR push_bit 16 (ucast (ucast (drop_bit 16 w) :: 8 word))
     OR push_bit 24 (ucast (ucast (drop_bit 24 w) :: 8 word)) = (w :: 32 word)"
  apply (rule bit_word_eqI)
  subgoal for n
    by (cases "n < 8"; cases "n < 16"; cases "n < 24"; simp add: bit_simps; arith)
  done

lemma load32_store32_same: "load32 (store32 m i w) i = w"
  by (simp add: load32_def store32_def word32_of_bytes)

lemma load32_store32_other: "i \<noteq> j \<Longrightarrow> load32 (store32 m i w) j = load32 m j"
  by (simp add: load32_def store32_def)

section \<open>Properties of the virtual port\<close>

lemma port_test_bit:
  "((w :: 32 word) AND push_bit n 1 \<noteq> 0) = bit w n"
  by (simp add: and_exp_eq_0_iff_not_bit)

lemma bit_port_set:
  "n < 32 \<Longrightarrow> bit ((w :: 32 word) OR push_bit n 1) k = (bit w k \<or> k = n)"
  by (auto simp add: bit_simps)

lemma bit_port_clear:
  "bit ((w :: 32 word) AND NOT (push_bit n 1)) k = (bit w k \<and> k \<noteq> n)"
  by (auto simp add: bit_simps dest: bit_imp_le_length)

lemma write_port:
  assumes "unat p < 32"
  shows "\<exists>w. i2s_ioexpander_write p v s = Inr (s\<lparr>i2s_port_data := w\<rparr>) \<and>
       (\<forall>k. bit w k = (if k = unat p then v \<noteq> 0 else bit (i2s_port_data s) k))"
proof (cases "v = 0")
  case True
  let ?w = "i2s_port_data s AND NOT (push_bit (unat p) 1)"
  have "i2s_ioexpander_write p v s = Inr (s\<lparr>i2s_port_data := ?w\<rparr>)"
    using assms True by (simp add: i2s_ioexpander_write_def)
  moreover have "\<forall>k. bit ?w k = (if k = unat p then v \<noteq> 0 else bit (i2s_port_data s) k)"
    using True by (simp only: bit_port_clear) simp
  ultimately show ?thesis by blast
next
  case False
  let ?w = "i2s_port_data s OR push_bit (unat p) 1"
  have "i2s_ioexpander_write p v s = Inr (s\<lparr>i2s_port_data := ?w\<rparr>)"
    using assms False by (simp add: i2s_ioexpander_write_def)
  moreover have "\<forall>k. bit ?w k = (if k = unat p then v \<noteq> 0 else bit (i2s_port_data s) k)"
    using False assms by (simp only: bit_port_set) simp
  ultimately show ?thesis by blast
qed

lemma state_port:
  "unat p < 32 \<Longrightarrow>
   i2s_ioexpander_state p s = Inr (if bit (i2s_port_data s) (unat p) then 1 else 0)"
  by (simp only: i2s_ioexpander_state_def Let_def port_test_bit if_True)

text \<open>
  C6, as stated, at an explicit input: the value written is a \<^verbatim>\<open>uint8_t\<close> that the
  code only tests against 0, and \<^verbatim>\<open>i2s_ioexpander_state\<close> answers with \<^verbatim>\<open>!!\<close> of the
  masked word. Writing 2 to pin 0 and reading pin 0 back gives 1, not 2.
\<close>

theorem write_then_state_not_identity:
  "write_then_state 0 2 power_on_state = Inr 1 \<and> write_then_state 0 2 power_on_state \<noteq> Inr 2"
  by (simp add: write_then_state_def i2s_ioexpander_write_def i2s_ioexpander_state_def
      power_on_state_def)

text \<open>
  C6 (amended): for every pin \<open>p\<close> in 0..31 and every value \<open>v\<close>,
  \<^verbatim>\<open>i2s_ioexpander_write(p, v)\<close> followed by \<^verbatim>\<open>i2s_ioexpander_state(p)\<close> returns 1 when
  \<open>v\<close> is not zero and 0 when \<open>v\<close> is zero (so it returns \<open>v\<close> itself for the values 0
  and 1). The write changes the port word only, and there no bit other than bit \<open>p\<close>;
  a later write to any other pin leaves the answer for pin \<open>p\<close> as it was.
\<close>

theorem write_then_state_reads_back:
  assumes "unat p < 32"
  shows "\<exists>s'. i2s_ioexpander_write p v s = Inr s'
    \<and> i2s_ioexpander_state p s' = Inr (if v \<noteq> 0 then 1 else 0)
    \<and> s' = s\<lparr>i2s_port_data := i2s_port_data s'\<rparr>
    \<and> (\<forall>k. k \<noteq> unat p \<longrightarrow> bit (i2s_port_data s') k = bit (i2s_port_data s) k)
    \<and> (\<forall>q w. unat q < 32 \<and> q \<noteq> p \<longrightarrow>
          (\<exists>s''. i2s_ioexpander_write q w s' = Inr s''
             \<and> i2s_ioexpander_state p s'' = Inr (if v \<noteq> 0 then 1 else 0)))"
proof -
  from write_port [OF assms, of v s] obtain w where
    w: "i2s_ioexpander_write p v s = Inr (s\<lparr>i2s_port_data := w\<rparr>)"
    and b: "\<And>k. bit w k = (if k = unat p then v \<noteq> 0 else bit (i2s_port_data s) k)"
    by blast
  let ?s' = "s\<lparr>i2s_port_data := w\<rparr>"
  have rd: "i2s_ioexpander_state p ?s' = Inr (if v \<noteq> 0 then 1 else 0)"
    using assms b by (simp add: state_port)
  have other: "\<exists>s''. i2s_ioexpander_write q u ?s' = Inr s''
      \<and> i2s_ioexpander_state p s'' = Inr (if v \<noteq> 0 then 1 else 0)"
    if q: "unat q < 32" "q \<noteq> p" for q u
  proof -
    from write_port [OF q(1), of u ?s'] obtain w' where
      w': "i2s_ioexpander_write q u ?s' = Inr (?s'\<lparr>i2s_port_data := w'\<rparr>)"
      and b': "\<And>k. bit w' k = (if k = unat q then u \<noteq> 0 else bit w k)"
      by auto
    from q(2) have "unat p \<noteq> unat q" by (simp add: word_unat_eq_iff)
    then have "bit w' (unat p) = (v \<noteq> 0)" using b b' by simp
    then show ?thesis using w' assms by (simp add: state_port)
  qed
  show ?thesis
    using w rd b other by auto
qed

text \<open>The amended C6 at pin 3 with the value 7, on the power-on state.\<close>

theorem write_then_state_reads_back_witness:
  "unat (3 :: 8 word) < 32 \<and> write_then_state 3 7 power_on_state = Inr 1"
proof -
  have h: "unat (3 :: 8 word) < 32" by simp
  from write_then_state_reads_back [OF h, of 7 power_on_state]
  show ?thesis using h by (auto simp add: write_then_state_def)
qed




section \<open>Properties of i2s\_ioexpander\_push\_sample\<close>

declare push_sample_loop.simps [simp del]

lemma push_sample_loop_unfold:
  "push_sample_loop num p n s =
     (if n + 1 < num then push_sample_loop num p (n + 1) (push_one p s) else (n + 1, push_one p s))"
  by (subst push_sample_loop.simps) (simp add: Let_def)

lemma word_succ_cases:
  fixes n num :: "32 word"
  assumes "n < num"
  shows "(n + 1 < num \<and> unat (num - n) = Suc (unat (num - (n + 1)))) \<or> (n + 1 = num \<and> unat (num - n) = 1)"
  using assms by unat_arith

lemma push_sample_loop_many:
  "n < num \<Longrightarrow> push_sample_loop num p n s = (num, push_many (unat (num - n)) p s)"
proof (induction num p n s rule: push_sample_loop.induct)
  case (1 num p n s)
  from word_succ_cases [OF "1.prems"] show ?case
  proof
    assume a: "n + 1 < num \<and> unat (num - n) = Suc (unat (num - (n + 1)))"
    then have "push_sample_loop num p (n + 1) (push_one p s)
        = (num, push_many (unat (num - (n + 1))) p (push_one p s))"
      using "1.IH" [OF refl refl] by simp
    with a show ?thesis
      by (subst push_sample_loop_unfold) simp
  next
    assume a: "n + 1 = num \<and> unat (num - n) = 1"
    then show ?thesis
      by (subst push_sample_loop_unfold) auto
  qed
qed

lemma push_one_fields [simp]:
  "dma_current (push_one p s) = dma_current s"
  "dma_rw_pos (push_one p s) = dma_rw_pos s + 1"
  by (simp_all add: push_one_def)

lemma push_many_current [simp]: "dma_current (push_many k p s) = dma_current s"
  by (induction k arbitrary: s) simp_all

lemma push_many_rw_pos: "dma_rw_pos (push_many k p s) = dma_rw_pos s + of_nat k"
  by (induction k arbitrary: s) simp_all

lemma push_one_rw_pos_add: "dma_rw_pos (push_one p s) + of_nat j = dma_rw_pos s + of_nat (Suc j)"
  by simp

lemma push_one_slot_other:
  "i \<noteq> unat (dma_rw_pos s) \<Longrightarrow> load32 (buf_heap (push_one p s) c) i = load32 (buf_heap s c) i"
  by (simp add: push_one_def load32_store32_other)

lemma push_one_slot_same:
  "load32 (buf_heap (push_one p s) (dma_current s)) (unat (dma_rw_pos s)) = p"
  by (simp add: push_one_def load32_store32_same)

lemma push_many_slot_other:
  "(\<forall>j<k. unat (dma_rw_pos s + of_nat j) \<noteq> i) \<Longrightarrow>
   load32 (buf_heap (push_many k p s) c) i = load32 (buf_heap s c) i"
proof (induction k arbitrary: s)
  case 0
  then show ?case by simp
next
  case (Suc k)
  have "\<forall>j<k. unat (dma_rw_pos (push_one p s) + of_nat j) \<noteq> i"
  proof (intro allI impI)
    fix j assume "j < k"
    then have "unat (dma_rw_pos s + of_nat (Suc j)) \<noteq> i"
      using Suc.prems [rule_format, of "Suc j"] by simp
    then show "unat (dma_rw_pos (push_one p s) + of_nat j) \<noteq> i"
      unfolding push_one_rw_pos_add .
  qed
  then have "load32 (buf_heap (push_many k p (push_one p s)) c) i
      = load32 (buf_heap (push_one p s) c) i"
    by (rule Suc.IH)
  moreover have "i \<noteq> unat (dma_rw_pos s)"
    using Suc.prems [rule_format, of 0] by simp
  ultimately show ?case
    by (simp add: push_one_slot_other)
qed

lemma word_add_of_nat_neq:
  fixes w :: "32 word"
  assumes "0 < j" "j < 2 ^ 32"
  shows "unat (w + of_nat j) \<noteq> unat w"
proof
  assume "unat (w + of_nat j) = unat w"
  then have "w + of_nat j = w"
    by (simp add: word_unat_eq_iff)
  then have "(of_nat j :: 32 word) = 0"
    by simp
  then have "unat (of_nat j :: 32 word) = 0"
    by simp
  then have "j mod 2 ^ 32 = 0"
    by (simp add: unat_of_nat)
  with assms show False
    by simp
qed

lemma push_many_slot:
  "j < k \<Longrightarrow> k \<le> 2 ^ 32 \<Longrightarrow>
   load32 (buf_heap (push_many k p s) (dma_current s)) (unat (dma_rw_pos s + of_nat j)) = p"
proof (induction k arbitrary: s j)
  case 0
  then show ?case by simp
next
  case (Suc k)
  show ?case
  proof (cases j)
    case 0
    have "\<forall>j'<k. unat (dma_rw_pos (push_one p s) + of_nat j') \<noteq> unat (dma_rw_pos s)"
    proof (intro allI impI)
      fix j' assume "j' < k"
      then have "0 < Suc j'" "Suc j' < 2 ^ 32"
        using Suc.prems(2) by simp_all
      then have "unat (dma_rw_pos s + of_nat (Suc j')) \<noteq> unat (dma_rw_pos s)"
        by (rule word_add_of_nat_neq)
      then show "unat (dma_rw_pos (push_one p s) + of_nat j') \<noteq> unat (dma_rw_pos s)"
        unfolding push_one_rw_pos_add .
    qed
    then have "load32 (buf_heap (push_many k p (push_one p s)) (dma_current s)) (unat (dma_rw_pos s))
        = load32 (buf_heap (push_one p s) (dma_current s)) (unat (dma_rw_pos s))"
      by (rule push_many_slot_other)
    with 0 show ?thesis
      by (simp add: push_one_slot_same)
  next
    case (Suc j')
    then have "j' < k" "k \<le> 2 ^ 32"
      using Suc.prems by simp_all
    from Suc.IH [OF this, of "push_one p s"]
    have "load32 (buf_heap (push_many k p (push_one p s)) (dma_current s))
        (unat (dma_rw_pos s + of_nat (Suc j'))) = p"
      unfolding push_one_rw_pos_add by simp
    with Suc show ?thesis
      by (simp only: push_many.simps)
  qed
qed

lemma push_sample_zero:
  "i2s_ioexpander_push_sample 0 s = (1, push_many 1 (i2s_port_data s) s)"
  by (simp add: i2s_ioexpander_push_sample_def push_sample_loop_unfold [of 0])

lemma push_sample_some:
  assumes "num \<noteq> 0" "unat num \<le> SAMPLE_SAFE_COUNT"
  shows "i2s_ioexpander_push_sample num s = (num, push_many (unat num) (i2s_port_data s) s)"
proof -
  from assms(1) have "0 < num"
    by (simp add: word_neq_0_conv)
  from push_sample_loop_many [OF this] assms(2) show ?thesis
    by (simp add: i2s_ioexpander_push_sample_def)
qed

text \<open>
  C2: for every count \<open>num\<close> and every state, \<^verbatim>\<open>i2s_ioexpander_push_sample(num)\<close>
  returns 0 and changes nothing, the cursor \<^verbatim>\<open>dma.rw_pos\<close> included, when \<open>num\<close> exceeds
  \<^const>\<open>SAMPLE_SAFE_COUNT\<close>; advances the cursor by exactly 1 and returns 1 when
  \<open>num\<close> is 0; otherwise advances the cursor by exactly \<open>num\<close> and returns \<open>num\<close>. In
  the last two cases every slot the cursor passed holds the port word read at the call.
  The cursor is a \<^verbatim>\<open>uint32_t\<close>, so its sums are taken modulo \<open>2 ^ 32\<close>.
\<close>

theorem push_sample_advances:
  "(SAMPLE_SAFE_COUNT < unat num \<longrightarrow> i2s_ioexpander_push_sample num s = (0, s))
   \<and> (num = 0 \<longrightarrow>
        fst (i2s_ioexpander_push_sample num s) = 1
        \<and> dma_rw_pos (snd (i2s_ioexpander_push_sample num s)) = dma_rw_pos s + 1)
   \<and> (num \<noteq> 0 \<and> unat num \<le> SAMPLE_SAFE_COUNT \<longrightarrow>
        fst (i2s_ioexpander_push_sample num s) = num
        \<and> dma_rw_pos (snd (i2s_ioexpander_push_sample num s)) = dma_rw_pos s + num)
   \<and> (unat num \<le> SAMPLE_SAFE_COUNT \<longrightarrow>
        (\<forall>j < (if num = 0 then 1 else unat num).
           load32 (buf_heap (snd (i2s_ioexpander_push_sample num s)) (dma_current s))
             (unat (dma_rw_pos s + of_nat j)) = i2s_port_data s))"
proof (intro conjI impI)
  assume "SAMPLE_SAFE_COUNT < unat num"
  then show "i2s_ioexpander_push_sample num s = (0, s)"
    by (simp add: i2s_ioexpander_push_sample_def)
next
  assume "num = 0"
  then show "fst (i2s_ioexpander_push_sample num s) = 1"
    by (simp add: push_sample_zero)
next
  assume "num = 0"
  then show "dma_rw_pos (snd (i2s_ioexpander_push_sample num s)) = dma_rw_pos s + 1"
    by (simp add: push_sample_zero)
next
  assume "num \<noteq> 0 \<and> unat num \<le> SAMPLE_SAFE_COUNT"
  then show "fst (i2s_ioexpander_push_sample num s) = num"
    by (simp add: push_sample_some)
next
  assume "num \<noteq> 0 \<and> unat num \<le> SAMPLE_SAFE_COUNT"
  then show "dma_rw_pos (snd (i2s_ioexpander_push_sample num s)) = dma_rw_pos s + num"
    by (simp add: push_sample_some push_many_rw_pos)
next
  assume le: "unat num \<le> SAMPLE_SAFE_COUNT"
  have eq: "snd (i2s_ioexpander_push_sample num s) = push_many ((if num = 0 then 1 else unat num)) (i2s_port_data s) s"
    using le by (cases "num = 0") (simp_all add: push_sample_zero push_sample_some)
  have "(if num = 0 then 1 else unat num) \<le> 2 ^ 32"
    using unsigned_less [of num, where 'a = nat] by simp
  then show "\<forall>j < (if num = 0 then 1 else unat num).
      load32 (buf_heap (snd (i2s_ioexpander_push_sample num s)) (dma_current s))
        (unat (dma_rw_pos s + of_nat j)) = i2s_port_data s"
    unfolding eq by (simp add: push_many_slot)
qed

text \<open>
  C2 on the state \<^const>\<open>stepping_state\<close> (cursor 7, port word 5): 6 samples are refused,
  0 samples push one, 3 samples push three, the last of them into slot 9.
\<close>

theorem push_sample_advances_witness:
  "i2s_ioexpander_push_sample 6 stepping_state = (0, stepping_state)
   \<and> fst (i2s_ioexpander_push_sample 0 stepping_state) = 1
   \<and> dma_rw_pos (snd (i2s_ioexpander_push_sample 0 stepping_state)) = 8
   \<and> fst (i2s_ioexpander_push_sample 3 stepping_state) = 3
   \<and> dma_rw_pos (snd (i2s_ioexpander_push_sample 3 stepping_state)) = 10
   \<and> load32 (buf_heap (snd (i2s_ioexpander_push_sample 3 stepping_state)) 16) 9 = 5"
proof -
  have c: "SAMPLE_SAFE_COUNT = 5"
    by (simp add: SAMPLE_SAFE_COUNT_def I2S_IOEXP_USEC_PER_PULSE_def)
  have s: "dma_rw_pos stepping_state = 7" "dma_current stepping_state = 16"
    "i2s_port_data stepping_state = 5"
    by (simp_all add: stepping_state_def)
  from push_sample_advances [of 6 stepping_state]
  have "i2s_ioexpander_push_sample 6 stepping_state = (0, stepping_state)"
    by (simp add: c)
  moreover from push_sample_advances [of 0 stepping_state]
  have "fst (i2s_ioexpander_push_sample 0 stepping_state) = 1
      \<and> dma_rw_pos (snd (i2s_ioexpander_push_sample 0 stepping_state)) = 8"
    by (simp add: s)
  moreover from push_sample_advances [of 3 stepping_state]
  have 3: "fst (i2s_ioexpander_push_sample 3 stepping_state) = 3
      \<and> dma_rw_pos (snd (i2s_ioexpander_push_sample 3 stepping_state)) = 10
      \<and> (\<forall>j < (if (3 :: 32 word) = 0 then 1 else unat (3 :: 32 word)).
           load32 (buf_heap (snd (i2s_ioexpander_push_sample 3 stepping_state)) 16)
             (unat (7 + of_nat j :: 32 word)) = 5)"
    by (simp add: c s)
  moreover have "load32 (buf_heap (snd (i2s_ioexpander_push_sample 3 stepping_state)) 16) 9 = 5"
    using 3 [THEN conjunct2, THEN conjunct2, rule_format, of 2] by simp
  ultimately show ?thesis
    by simp
qed

section \<open>Basic facts\<close>

lemma fill_samples_Suc: "fill_samples (Suc n) w m = store32 (fill_samples n w m) n w"
  by (simp add: fill_samples_def)

lemma load32_fill_samples:
  "load32 (fill_samples n w m) i = (if i < n then w else load32 m i)"
proof (induction n)
  case 0
  then show ?case by (simp add: fill_samples_def)
next
  case (Suc n)
  show ?case
  proof (cases "i = n")
    case True
    then show ?thesis by (simp add: fill_samples_Suc load32_store32_same)
  next
    case False
    then have "load32 (fill_samples (Suc n) w m) i = load32 (fill_samples n w m) i"
      by (simp add: fill_samples_Suc load32_store32_other)
    with Suc False show ?thesis by auto
  qed
qed

lemma fill_bytes_Suc: "fill_bytes (Suc n) b m = store8 (fill_bytes n b m) n b"
  by (simp add: fill_bytes_def)

lemma fill_bytes_apply: "fill_bytes n b m j = (if j < n then b else m j)"
  by (induction n) (auto simp add: fill_bytes_Suc store8_def fill_bytes_def)

lemma emit_fields [simp]:
  "dma_buffers_ptr (emit es s) = dma_buffers_ptr s"
  "dma_buffers (emit es s) = dma_buffers s"
  "dma_current (emit es s) = dma_current s"
  "dma_rw_pos (emit es s) = dma_rw_pos s"
  "dma_desc_ptr (emit es s) = dma_desc_ptr s"
  "dma_desc (emit es s) = dma_desc s"
  "dma_queue (emit es s) = dma_queue s"
  "i2s_port_data (emit es s) = i2s_port_data s"
  "i2s_ioexpander_initialized (emit es s) = i2s_ioexpander_initialized s"
  "i2s_ioexpander_pulse_period (emit es s) = i2s_ioexpander_pulse_period s"
  "i2s_ioexpander_remain_time_until_next_pulse (emit es s) = i2s_ioexpander_remain_time_until_next_pulse s"
  "i2s_ioexpander_pulse_phase_func (emit es s) = i2s_ioexpander_pulse_phase_func s"
  "i2s_ioexpander_ws_pin (emit es s) = i2s_ioexpander_ws_pin s"
  "i2s_ioexpander_bck_pin (emit es s) = i2s_ioexpander_bck_pin s"
  "i2s_ioexpander_data_pin (emit es s) = i2s_ioexpander_data_pin s"
  "i2s_ioexpander_pulser_status (emit es s) = i2s_ioexpander_pulser_status s"
  "desc_heap (emit es s) = desc_heap s"
  "buf_heap (emit es s) = buf_heap s"
  "trace (emit es s) = trace s @ es"
  by (simp_all add: emit_def)

lemma emit_emit [simp]: "emit es (emit es' s) = emit (es' @ es) s"
  by (simp add: emit_def)

lemma DMA_SAMPLE_COUNT_eq: "DMA_SAMPLE_COUNT = 500"
  by (simp add: DMA_SAMPLE_COUNT_def DMA_BUF_LEN_def I2S_SAMPLE_SIZE_def)

lemma SAMPLE_SAFE_COUNT_eq: "SAMPLE_SAFE_COUNT = 5"
  by (simp add: SAMPLE_SAFE_COUNT_def I2S_IOEXP_USEC_PER_PULSE_def)

lemma unat_DMA_BUF_LEN: "unat (of_nat DMA_BUF_LEN :: 12 word) = DMA_BUF_LEN"
  by (simp add: DMA_BUF_LEN_def)

section \<open>The feeder task in PASSTHROUGH mode\<close>

text \<open>
  C4: a refill in \<open>PASSTHROUGH\<close> mode always completes, whatever the fuel; afterwards
  every one of the \<^const>\<open>DMA_SAMPLE_COUNT\<close> samples of the buffer of the descriptor is
  the port word as it was when the refill began, the length of the descriptor is
  \<^const>\<open>DMA_BUF_LEN\<close>, and the cursor stands at \<^const>\<open>DMA_SAMPLE_COUNT\<close>.
\<close>

theorem replay_refill_fills_buffer:
  assumes "i2s_ioexpander_pulser_status s = PASSTHROUGH"
  shows "\<exists>s'. i2sIOExpanderTask_refill env fuel cur_desc s = Some s'
     \<and> (\<forall>i < DMA_SAMPLE_COUNT.
           load32 (buf_heap s' (buf (desc_heap s cur_desc))) i = i2s_port_data s)
     \<and> unat (length_f (desc_heap s' cur_desc)) = DMA_BUF_LEN
     \<and> unat (dma_rw_pos s') = DMA_SAMPLE_COUNT
     \<and> i2s_port_data s' = i2s_port_data s"
  using assms
  by (simp add: i2sIOExpanderTask_refill_def Let_def load32_fill_samples unat_DMA_BUF_LEN)
    (simp add: DMA_SAMPLE_COUNT_eq)

text \<open>C4 on \<^const>\<open>replay_state\<close>: the last sample of buffer 16 becomes the port word 165.\<close>

theorem replay_refill_fills_buffer_witness:
  "i2s_ioexpander_pulser_status replay_state = PASSTHROUGH
   \<and> (\<exists>s'. i2sIOExpanderTask_refill (\<lambda>_. id) 0 1 replay_state = Some s'
         \<and> load32 (buf_heap s' 16) 499 = 165
         \<and> unat (length_f (desc_heap s' 1)) = 2000)"
proof -
  have h: "i2s_ioexpander_pulser_status replay_state = PASSTHROUGH"
    by (simp add: replay_state_def power_on_state_def)
  have b: "buf (desc_heap replay_state 1) = 16" "i2s_port_data replay_state = 165"
    by (simp_all add: replay_state_def)
  from replay_refill_fills_buffer [OF h, of "\<lambda>_. id" 0 1] obtain s' where
    "i2sIOExpanderTask_refill (\<lambda>_. id) 0 1 replay_state = Some s'"
    "\<forall>i < DMA_SAMPLE_COUNT. load32 (buf_heap s' 16) i = 165"
    "unat (length_f (desc_heap s' 1)) = DMA_BUF_LEN"
    unfolding b by blast
  then show ?thesis
    using h by (simp add: DMA_SAMPLE_COUNT_eq DMA_BUF_LEN_def)
qed

section \<open>i2s\_stop and the wire protocol\<close>

lemma pin_not_minus_one: "(ucast (p :: 8 word) :: 32 word) \<noteq> - 1"
proof
  assume "(ucast p :: 32 word) = - 1"
  then have "bit (ucast p :: 32 word) 31 = bit (- 1 :: 32 word) 31"
    by simp
  then show False
    by (auto simp add: bit_simps dest: bit_imp_le_length)
qed

lemma gpio_matrix_out_check_pin:
  "gpio_matrix_out_check (ucast (p :: 8 word)) sig s =
     emit [Pin_func_select (ucast p), Gpio_set_direction (ucast p), Gpio_matrix_out (ucast p) sig] s"
  by (simp add: gpio_matrix_out_check_def pin_not_minus_one)

lemma port_test_exp: "((w :: 32 word) AND 2 ^ n \<noteq> 0) = bit w n"
  by (simp add: and_exp_eq_0_iff_not_bit)

lemma fold_shiftout_bit:
  "fold (shiftout_bit w) xs s =
     emit (concat (map (\<lambda>i. [Digital_write (i2s_ioexpander_data_pin s) (bit w (31 - i)),
                              Digital_write (i2s_ioexpander_bck_pin s) True,
                              Digital_write (i2s_ioexpander_bck_pin s) False]) xs)) s"
proof (induction xs arbitrary: s)
  case Nil
  show ?case by (simp add: emit_def)
next
  case (Cons x xs)
  have "fold (shiftout_bit w) (x # xs) s = fold (shiftout_bit w) xs (shiftout_bit w x s)"
    by simp
  also have "\<dots> = emit (concat (map (\<lambda>i.
        [Digital_write (i2s_ioexpander_data_pin (shiftout_bit w x s)) (bit w (31 - i)),
         Digital_write (i2s_ioexpander_bck_pin (shiftout_bit w x s)) True,
         Digital_write (i2s_ioexpander_bck_pin (shiftout_bit w x s)) False]) xs))
      (shiftout_bit w x s)"
    by (rule Cons.IH)
  also have "\<dots> = emit (concat (map (\<lambda>i.
        [Digital_write (i2s_ioexpander_data_pin s) (bit w (31 - i)),
         Digital_write (i2s_ioexpander_bck_pin s) True,
         Digital_write (i2s_ioexpander_bck_pin s) False]) (x # xs))) s"
    by (simp add: shiftout_bit_def port_test_exp)
  finally show ?case .
qed

lemma msb_first: "map (\<lambda>i. f (31 - i)) [0..<32] = map f (rev [0..<32 :: nat])"
proof -
  have "map (\<lambda>i. f (31 - i)) [0..<n] = map f (rev [32 - n..<32])" if "n \<le> 32" for n
    using that
  proof (induction n)
    case 0
    then show ?case by simp
  next
    case (Suc n)
    then have "Suc (31 - n) = 32 - n"
      by arith
    with Suc have "[32 - Suc n..<32] = (31 - n) # [32 - n..<32]"
      by (simp add: upt_conv_Cons)
    with Suc show ?case
      by simp
  qed
  from this [of 32] show ?thesis
    by simp
qed

lemma i2s_gpio_shiftout_frame:
  "i2s_gpio_shiftout w s =
     emit (shift_register_frame (i2s_ioexpander_ws_pin s) (i2s_ioexpander_bck_pin s)
             (i2s_ioexpander_data_pin s) w) s"
proof -
  let ?f = "\<lambda>b. [Digital_write (i2s_ioexpander_data_pin s) (bit w b),
     Digital_write (i2s_ioexpander_bck_pin s) True, Digital_write (i2s_ioexpander_bck_pin s) False]"
  have "map (\<lambda>i. ?f (31 - i)) [0..<32] = map ?f (rev [0..<32])"
    by (rule msb_first)
  then show ?thesis
    by (simp add: i2s_gpio_shiftout_def Let_def fold_shiftout_bit shift_register_frame_def)
qed

text \<open>
  C9: everything \<^verbatim>\<open>i2s_stop\<close> does to the outside, in order. After the DMA link and
  the transmitter are stopped, word-select is driven low; only then are the three wires
  detached (word-select, clock, data); the clock wire is forced low; and the port word is
  shifted out once in the frame \<^const>\<open>shift_register_frame\<close>: word-select low, bits 31
  down to 0 on the data wire with a high-low pulse of the clock for each, word-select high.
\<close>

theorem i2s_stop_wire_sequence:
  "trace (i2s_stop s) =
     trace s
     @ [I2S_enter_critical, Reg ''out_link.stop'' 1, Reg ''fifo_conf.dscr_en'' 0,
        Reg ''conf.tx_start'' 0]
     @ [Digital_write (i2s_ioexpander_ws_pin s) False]
     @ detach_events (i2s_ioexpander_ws_pin s)
     @ detach_events (i2s_ioexpander_bck_pin s)
     @ detach_events (i2s_ioexpander_data_pin s)
     @ [Digital_write (i2s_ioexpander_bck_pin s) False]
     @ shift_register_frame (i2s_ioexpander_ws_pin s) (i2s_ioexpander_bck_pin s)
         (i2s_ioexpander_data_pin s) (i2s_port_data s)
     @ [Int_clr_pending, I2S_exit_critical]"
  by (simp add: i2s_stop_def Let_def i2s_gpio_detach_def gpio_matrix_out_check_pin
      i2s_gpio_shiftout_frame detach_events_def)

lemma i2s_stop_emit: "\<exists>es. i2s_stop s = emit es s"
  by (simp add: i2s_stop_def Let_def i2s_gpio_detach_def gpio_matrix_out_check_pin
      i2s_gpio_shiftout_frame) blast

lemma i2s_start_emit: "\<exists>es. snd (i2s_start s) = emit es s"
proof (cases "i2s_ioexpander_initialized s")
  case True
  then show ?thesis
    by (simp add: i2s_start_def Let_def i2s_gpio_attach_def gpio_matrix_out_check_pin
      i2s_gpio_shiftout_frame i2s_reset_fifo_without_lock_def) blast
next
  case False
  have "snd (i2s_start s) = emit [] s"
    using False by (simp add: i2s_start_def emit_def)
  then show ?thesis ..
qed

section \<open>i2s\_ioexpander\_reset\<close>

lemma ready_desc_fields [simp]:
  "dma_desc (ready_desc k s) = dma_desc s"
  "dma_buffers (ready_desc k s) = dma_buffers s"
  "i2s_port_data (ready_desc k s) = i2s_port_data s"
  "buf_heap (ready_desc k s) = buf_heap s"
  by (simp_all add: ready_desc_def Let_def)

lemma clear_dma_buffer_fields [simp]:
  "dma_desc (clear_dma_buffer k s) = dma_desc s"
  "dma_buffers (clear_dma_buffer k s) = dma_buffers s"
  "i2s_port_data (clear_dma_buffer k s) = i2s_port_data s"
  by (simp_all add: clear_dma_buffer_def Let_def)

lemma fold_clear_fields [simp]:
  "dma_desc (fold clear_dma_buffer ks s) = dma_desc s"
  "dma_buffers (fold clear_dma_buffer ks s) = dma_buffers s"
  "i2s_port_data (fold clear_dma_buffer ks s) = i2s_port_data s"
  by (induction ks arbitrary: s) simp_all

lemma ring_successor:
  "k < DMA_BUF_COUNT \<Longrightarrow>
   (if k < DMA_BUF_COUNT - 1 then dma_desc s (k + 1) else dma_desc s 0)
     = dma_desc s ((k + 1) mod DMA_BUF_COUNT)"
proof (cases "k < DMA_BUF_COUNT - 1")
  case True
  then have "(k + 1) mod DMA_BUF_COUNT = k + 1"
    by simp
  with True show ?thesis
    by simp
next
  case False
  assume "k < DMA_BUF_COUNT"
  with False have "k + 1 = DMA_BUF_COUNT"
    by arith
  then have "(k + 1) mod DMA_BUF_COUNT = 0"
    by simp
  with False show ?thesis
    by simp
qed

lemma clear_dma_buffer_desc_same:
  assumes "k < DMA_BUF_COUNT"
  shows "desc_is_ready s k (desc_heap (clear_dma_buffer k s) (dma_desc s k))"
proof -
  have len: "unat (of_nat DMA_BUF_LEN :: 12 word) = DMA_BUF_LEN"
    by (simp add: DMA_BUF_LEN_def)
  show ?thesis
    unfolding desc_is_ready_def ring_successor [OF assms, symmetric]
    by (simp add: clear_dma_buffer_def ready_desc_def Let_def len)
qed

lemma clear_dma_buffer_desc_other:
  "a \<noteq> dma_desc s k \<Longrightarrow> desc_heap (clear_dma_buffer k s) a = desc_heap s a"
  by (simp add: clear_dma_buffer_def ready_desc_def Let_def)

lemma fold_clear_desc_other:
  "a \<notin> dma_desc s ` set ks \<Longrightarrow> desc_heap (fold clear_dma_buffer ks s) a = desc_heap s a"
  by (induction ks arbitrary: s) (simp_all add: clear_dma_buffer_desc_other)

lemma fold_clear_desc_ready:
  assumes "k \<in> set ks" "distinct (map (dma_desc s) ks)" "\<forall>j \<in> set ks. j < DMA_BUF_COUNT"
  shows "desc_is_ready s k (desc_heap (fold clear_dma_buffer ks s) (dma_desc s k))"
  using assms
proof (induction ks arbitrary: s)
  case Nil
  then show ?case by simp
next
  case (Cons x xs)
  show ?case
  proof (cases "k \<in> set xs")
    case True
    have "desc_is_ready (clear_dma_buffer x s) k
        (desc_heap (fold clear_dma_buffer xs (clear_dma_buffer x s)) (dma_desc (clear_dma_buffer x s) k))"
      using True Cons.prems by (intro Cons.IH) simp_all
    then show ?thesis
      by (simp add: desc_is_ready_def)
  next
    case False
    with Cons.prems have kx: "k = x" and notin: "dma_desc s k \<notin> dma_desc s ` set xs"
      by auto
    have "desc_heap (fold clear_dma_buffer xs (clear_dma_buffer x s)) (dma_desc s k)
        = desc_heap (clear_dma_buffer x s) (dma_desc s k)"
      using notin by (intro fold_clear_desc_other) simp
    moreover have "desc_is_ready s k (desc_heap (clear_dma_buffer k s) (dma_desc s k))"
      using Cons.prems kx by (intro clear_dma_buffer_desc_same) simp
    ultimately show ?thesis
      using kx by simp
  qed
qed

lemma clear_dma_buffer_samples_same:
  "all_samples (i2s_port_data s) (buf_heap (clear_dma_buffer k s) (dma_buffers s k))"
  by (simp add: clear_dma_buffer_def Let_def all_samples_def load32_fill_samples)

lemma clear_dma_buffer_samples_kept:
  "all_samples (i2s_port_data s) (buf_heap s b) \<Longrightarrow>
   all_samples (i2s_port_data s) (buf_heap (clear_dma_buffer k s) b)"
  by (simp add: clear_dma_buffer_def Let_def all_samples_def load32_fill_samples)

lemma fold_clear_samples_kept:
  "all_samples (i2s_port_data s) (buf_heap s b) \<Longrightarrow>
   all_samples (i2s_port_data s) (buf_heap (fold clear_dma_buffer ks s) b)"
proof (induction ks arbitrary: s)
  case Nil
  then show ?case by simp
next
  case (Cons x xs)
  from Cons.prems have "all_samples (i2s_port_data (clear_dma_buffer x s)) (buf_heap (clear_dma_buffer x s) b)"
    by (simp add: clear_dma_buffer_samples_kept)
  from Cons.IH [OF this] show ?case
    by simp
qed

lemma fold_clear_samples:
  "k \<in> set ks \<Longrightarrow>
   all_samples (i2s_port_data s) (buf_heap (fold clear_dma_buffer ks s) (dma_buffers s k))"
proof (induction ks arbitrary: s)
  case Nil
  then show ?case by simp
next
  case (Cons x xs)
  show ?case
  proof (cases "k = x")
    case True
    have "all_samples (i2s_port_data (clear_dma_buffer x s))
        (buf_heap (clear_dma_buffer x s) (dma_buffers s k))"
      using True by (simp add: clear_dma_buffer_samples_same)
    from fold_clear_samples_kept [OF this] show ?thesis
      by simp
  next
    case False
    with Cons.prems have "k \<in> set xs"
      by simp
    from Cons.IH [OF this, of "clear_dma_buffer x s"] show ?thesis
      by simp
  qed
qed

text \<open>
  C5: on an initialised engine whose \<^const>\<open>DMA_BUF_COUNT\<close> descriptors are distinct
  objects, \<^verbatim>\<open>i2s_ioexpander_reset\<close> returns 0 and leaves, for every index \<open>k\<close> of the
  ring, the descriptor \<open>k\<close> ready (owner 1, eof 1, length \<^const>\<open>DMA_BUF_LEN\<close>, pointing
  at buffer \<open>k\<close>, linked to descriptor \<open>(k + 1) mod DMA_BUF_COUNT\<close>) and every sample of
  buffer \<open>k\<close> equal to the port word, which the reset does not change.
\<close>

theorem reset_restores_ring:
  assumes "i2s_ioexpander_initialized s"
    and "distinct (map (dma_desc s) [0..<DMA_BUF_COUNT])"
    and "k < DMA_BUF_COUNT"
  shows "desc_is_ready s k (desc_heap (snd (i2s_ioexpander_reset s)) (dma_desc s k))
     \<and> all_samples (i2s_port_data s) (buf_heap (snd (i2s_ioexpander_reset s)) (dma_buffers s k))
     \<and> fst (i2s_ioexpander_reset s) = 0
     \<and> dma_desc (snd (i2s_ioexpander_reset s)) = dma_desc s
     \<and> dma_buffers (snd (i2s_ioexpander_reset s)) = dma_buffers s
     \<and> i2s_port_data (snd (i2s_ioexpander_reset s)) = i2s_port_data s"
proof -
  obtain es where stop: "i2s_stop s = emit es s"
    using i2s_stop_emit by blast
  let ?s1 = "emit es s"
  let ?s2 = "fold clear_dma_buffer [0..<DMA_BUF_COUNT] ?s1"
  have clear: "snd (i2s_clear_dma_buffers ?s1) = ?s2"
    using assms(1) by (simp add: i2s_clear_dma_buffers_def)
  obtain es' where start: "snd (i2s_start ?s2) = emit es' ?s2"
    using i2s_start_emit by blast
  have reset: "snd (i2s_ioexpander_reset s) = emit es' ?s2"
    by (simp add: i2s_ioexpander_reset_def Let_def stop clear start)
  have k: "k \<in> set [0..<DMA_BUF_COUNT]"
    using assms(3) by simp
  have "desc_is_ready ?s1 k (desc_heap ?s2 (dma_desc ?s1 k))"
    using k assms(2) by (intro fold_clear_desc_ready) simp_all
  moreover have "all_samples (i2s_port_data ?s1) (buf_heap ?s2 (dma_buffers ?s1 k))"
    using k by (rule fold_clear_samples)
  ultimately show ?thesis
    by (simp add: reset desc_is_ready_def) (simp add: i2s_ioexpander_reset_def Let_def)
qed

text \<open>C5 on \<^const>\<open>running_state\<close>, for the last descriptor of the ring, which links back to the first.\<close>

theorem reset_restores_ring_witness:
  "i2s_ioexpander_initialized running_state
   \<and> distinct (map (dma_desc running_state) [0..<DMA_BUF_COUNT])
   \<and> 4 < DMA_BUF_COUNT
   \<and> owner (desc_heap (snd (i2s_ioexpander_reset running_state)) 104) = 1
   \<and> empty_f (desc_heap (snd (i2s_ioexpander_reset running_state)) 104) = 100
   \<and> load32 (buf_heap (snd (i2s_ioexpander_reset running_state)) 204) 499 = 305419896"
proof -
  have h1: "i2s_ioexpander_initialized running_state"
    by (simp add: running_state_def)
  have h2: "distinct (map (dma_desc running_state) [0..<DMA_BUF_COUNT])"
    by (simp add: running_state_def DMA_BUF_COUNT_def distinct_map)
  have h3: "4 < DMA_BUF_COUNT"
    by (simp add: DMA_BUF_COUNT_def)
  have f: "dma_desc running_state 4 = 104" "dma_buffers running_state 4 = 204"
    "i2s_port_data running_state = 305419896" "dma_desc running_state 0 = 100"
    by (simp_all add: running_state_def)
  from reset_restores_ring [OF h1 h2 h3]
  have "desc_is_ready running_state 4 (desc_heap (snd (i2s_ioexpander_reset running_state)) 104)"
    and "all_samples 305419896 (buf_heap (snd (i2s_ioexpander_reset running_state)) 204)"
    unfolding f by simp_all
  then show ?thesis
    using h1 h2 h3
    by (simp add: desc_is_ready_def all_samples_def DMA_SAMPLE_COUNT_eq f) (simp add: DMA_BUF_COUNT_def f)
qed

section \<open>The interrupt handler when the queue is full\<close>

lemma isr_overflow:
  assumes "xQueueIsQueueFullFromISR (dma_queue s)" "dma_queue s = front_desc # rest"
  shows "i2s_intr_handler_default True finish_desc s =
     emit [Int_clr_pending]
       (s\<lparr>dma_queue := xQueueSendFromISR finish_desc rest,
          buf_heap := (buf_heap s)(buf (desc_heap s front_desc) :=
             fill_bytes DMA_SAMPLE_COUNT (ucast (i2s_port_data s))
               (buf_heap s (buf (desc_heap s front_desc)))),
          desc_heap := (desc_heap s)(front_desc := (desc_heap s front_desc)
             \<lparr>length_f := of_nat DMA_BUF_LEN\<rparr>)\<rparr>)"
  using assms by (simp add: i2s_intr_handler_default_def Let_def)

lemma load32_fill_bytes:
  "load32 (fill_bytes n b m) i =
     (if 4 * i + 3 < n then
        ucast b OR push_bit 8 (ucast b) OR push_bit 16 (ucast b) OR push_bit 24 (ucast b)
      else if n \<le> 4 * i then load32 m i
      else load32 (fill_bytes n b m) i)"
  by (simp add: load32_def fill_bytes_apply)

text \<open>
  With the flag \<^verbatim>\<open>out_eof\<close> set the handler always ends with the finished descriptor at the
  tail of the queue, and a queue within its capacity stays within it.
\<close>

lemma isr_queue:
  assumes "length (dma_queue s) \<le> DMA_BUF_COUNT"
  shows "dma_queue (i2s_intr_handler_default True finish_desc s) =
      (if length (dma_queue s) = DMA_BUF_COUNT then tl (dma_queue s) else dma_queue s) @ [finish_desc]"
    and "length (dma_queue (i2s_intr_handler_default True finish_desc s)) \<le> DMA_BUF_COUNT"
  using assms
  by (auto simp add: i2s_intr_handler_default_def Let_def xQueueIsQueueFullFromISR_def
      xQueueSendFromISR_def DMA_BUF_COUNT_def split: list.splits)

text \<open>
  The recovery fill, for every state with a full queue: the first \<^const>\<open>DMA_SAMPLE_COUNT\<close>
  bytes of the evicted buffer become the low byte of the port word, every other byte of
  it is left as it was.
\<close>

lemma isr_overflow_bytes:
  assumes "xQueueIsQueueFullFromISR (dma_queue s)" "dma_queue s = front_desc # rest"
  shows "buf_heap (i2s_intr_handler_default True finish_desc s) (buf (desc_heap s front_desc)) j =
      (if j < DMA_SAMPLE_COUNT then ucast (i2s_port_data s)
       else buf_heap s (buf (desc_heap s front_desc)) j)"
  by (simp add: isr_overflow [OF assms] fill_bytes_apply)

text \<open>
  C1 at an explicit input. The queue of \<^const>\<open>overflow_state\<close> is full and descriptor
  100 has just been sent. The handler takes the oldest descriptor, 100, off the queue, sets
  its length to 2000 and queues the finished descriptor: that much is as claimed. But the
  fill goes through the byte pointer \<^verbatim>\<open>front_desc->buf\<close>: it stores the low byte
  \<open>0x78\<close> of the port word \<open>0x12345678\<close> in the first 500 bytes. Samples 0 to 124 read
  \<open>0x78787878\<close>, not the port word, and samples 125 to 499 still hold the stale
  \<open>0xEEEEEEEE\<close>.
\<close>

theorem isr_overflow_fills_bytes_not_samples:
  "dma_queue (i2s_intr_handler_default True 100 overflow_state) = [101, 102, 103, 104, 100]
   \<and> unat (length_f (desc_heap (i2s_intr_handler_default True 100 overflow_state) 100)) = 2000
   \<and> i2s_port_data overflow_state = 0x12345678
   \<and> load32 (buf_heap overflow_state 200) 125 = 0xEEEEEEEE
   \<and> load32 (buf_heap (i2s_intr_handler_default True 100 overflow_state) 200) 0 = 0x78787878
   \<and> load32 (buf_heap (i2s_intr_handler_default True 100 overflow_state) 200) 124 = 0x78787878
   \<and> load32 (buf_heap (i2s_intr_handler_default True 100 overflow_state) 200) 125 = 0xEEEEEEEE
   \<and> load32 (buf_heap (i2s_intr_handler_default True 100 overflow_state) 200) 499 = 0xEEEEEEEE"
proof -
  have q: "xQueueIsQueueFullFromISR (dma_queue overflow_state)"
    "dma_queue overflow_state = 100 # [101, 102, 103, 104]"
    by (simp_all add: overflow_state_def xQueueIsQueueFullFromISR_def DMA_BUF_COUNT_def)
  have f: "buf (desc_heap overflow_state 100) = 200" "i2s_port_data overflow_state = 0x12345678"
    "\<And>j. buf_heap overflow_state 200 j = 238"
    "desc_heap overflow_state 100 = zero_desc\<lparr>buf := 200\<rparr>"
    by (simp_all add: overflow_state_def running_state_def)
  show ?thesis
    unfolding isr_overflow [OF q]
    by (simp add: xQueueSendFromISR_def DMA_BUF_COUNT_def DMA_BUF_LEN_def load32_fill_bytes
        DMA_SAMPLE_COUNT_eq f) (simp add: load32_def f)
qed

section \<open>The feeder task in STEPPING mode\<close>

lemma USEC_word: "(of_nat I2S_IOEXP_USEC_PER_PULSE :: 32 word) = 4"
  by (simp add: I2S_IOEXP_USEC_PER_PULSE_def)

text \<open>
  C3: one round of the loop when a callback is registered. If the remaining time is below
  one sample period and the mode is \<open>STEPPING\<close>, the task leaves the pulser critical
  section, calls the callback on the state it has then (\<open>c\<close> is what the callback
  returns), enters the critical section again and sets the remaining time to the pulse
  period found after the call; the cursor and the buffers are those the callback left, so
  the task itself uses no slot in this round. In every other round the task stores the
  port word in the slot under the cursor, moves the cursor by one, touches neither the
  critical section nor the callback, and takes one sample period off the remaining time,
  stopping at zero.
\<close>

theorem stepping_round_cases:
  assumes "i2s_ioexpander_pulse_phase_func s \<noteq> 0"
  shows
    "(unat (i2s_ioexpander_remain_time_until_next_pulse s) < I2S_IOEXP_USEC_PER_PULSE
        \<and> i2s_ioexpander_pulser_status s = STEPPING \<longrightarrow>
      (let c = env (i2s_ioexpander_pulse_phase_func s) (emit [Pulser_exit_critical] s);
           s' = stepping_round env s
       in trace s' = trace c @ [Pulser_enter_critical]
          \<and> i2s_ioexpander_remain_time_until_next_pulse s' = i2s_ioexpander_pulse_period c
          \<and> dma_rw_pos s' = dma_rw_pos c
          \<and> buf_heap s' = buf_heap c
          \<and> s' = c\<lparr>trace := trace s', i2s_ioexpander_remain_time_until_next_pulse :=
                     i2s_ioexpander_remain_time_until_next_pulse s'\<rparr>))
     \<and> (\<not> (unat (i2s_ioexpander_remain_time_until_next_pulse s) < I2S_IOEXP_USEC_PER_PULSE
           \<and> i2s_ioexpander_pulser_status s = STEPPING) \<longrightarrow>
      (let s' = stepping_round env s
       in dma_rw_pos s' = dma_rw_pos s + 1
          \<and> load32 (buf_heap s' (dma_current s)) (unat (dma_rw_pos s)) = i2s_port_data s
          \<and> unat (i2s_ioexpander_remain_time_until_next_pulse s')
               = unat (i2s_ioexpander_remain_time_until_next_pulse s) - I2S_IOEXP_USEC_PER_PULSE
          \<and> trace s' = trace s
          \<and> s' = (push_one (i2s_port_data s) s)\<lparr>i2s_ioexpander_remain_time_until_next_pulse :=
                     i2s_ioexpander_remain_time_until_next_pulse s'\<rparr>))"
proof (intro conjI impI)
  assume a: "unat (i2s_ioexpander_remain_time_until_next_pulse s) < I2S_IOEXP_USEC_PER_PULSE
        \<and> i2s_ioexpander_pulser_status s = STEPPING"
  then have "i2s_ioexpander_remain_time_until_next_pulse s < 4"
    by (simp add: word_less_nat_alt I2S_IOEXP_USEC_PER_PULSE_def)
  with a assms show "let c = env (i2s_ioexpander_pulse_phase_func s) (emit [Pulser_exit_critical] s);
           s' = stepping_round env s
       in trace s' = trace c @ [Pulser_enter_critical]
          \<and> i2s_ioexpander_remain_time_until_next_pulse s' = i2s_ioexpander_pulse_period c
          \<and> dma_rw_pos s' = dma_rw_pos c
          \<and> buf_heap s' = buf_heap c
          \<and> s' = c\<lparr>trace := trace s', i2s_ioexpander_remain_time_until_next_pulse :=
                     i2s_ioexpander_remain_time_until_next_pulse s'\<rparr>"
    by (simp add: stepping_round_def Let_def USEC_word emit_def)
next
  assume a: "\<not> (unat (i2s_ioexpander_remain_time_until_next_pulse s) < I2S_IOEXP_USEC_PER_PULSE
           \<and> i2s_ioexpander_pulser_status s = STEPPING)"
  let ?r = "i2s_ioexpander_remain_time_until_next_pulse s"
  have lt: "(?r < 4) = (unat ?r < I2S_IOEXP_USEC_PER_PULSE)"
    by (simp add: word_less_nat_alt I2S_IOEXP_USEC_PER_PULSE_def)
  have sub: "unat (?r - 4) = unat ?r - I2S_IOEXP_USEC_PER_PULSE" if "4 \<le> ?r"
    using that by (simp add: unat_sub I2S_IOEXP_USEC_PER_PULSE_def)
  have zero: "unat ?r - I2S_IOEXP_USEC_PER_PULSE = 0" if "\<not> 4 \<le> ?r"
    using that by (simp add: word_le_nat_alt I2S_IOEXP_USEC_PER_PULSE_def)
  from a show "let s' = stepping_round env s
       in dma_rw_pos s' = dma_rw_pos s + 1
          \<and> load32 (buf_heap s' (dma_current s)) (unat (dma_rw_pos s)) = i2s_port_data s
          \<and> unat (i2s_ioexpander_remain_time_until_next_pulse s')
               = unat (i2s_ioexpander_remain_time_until_next_pulse s) - I2S_IOEXP_USEC_PER_PULSE
          \<and> trace s' = trace s
          \<and> s' = (push_one (i2s_port_data s) s)\<lparr>i2s_ioexpander_remain_time_until_next_pulse :=
                     i2s_ioexpander_remain_time_until_next_pulse s'\<rparr>"
    by (auto simp add: stepping_round_def Let_def USEC_word lt sub zero push_one_def
        load32_store32_same)
qed

lemma stepping_round_within:
  assumes "callback_within_margin env" "stepping_continues s"
  shows "unat (dma_rw_pos (stepping_round env s)) \<le> DMA_SAMPLE_COUNT"
proof (cases "i2s_ioexpander_remain_time_until_next_pulse s < of_nat I2S_IOEXP_USEC_PER_PULSE
         \<and> i2s_ioexpander_pulser_status s = STEPPING
         \<and> i2s_ioexpander_pulse_phase_func s \<noteq> 0")
  case True
  let ?c = "env (i2s_ioexpander_pulse_phase_func s) (emit [Pulser_exit_critical] s)"
  from True have "dma_rw_pos (stepping_round env s) = dma_rw_pos ?c"
    by (simp add: stepping_round_def Let_def)
  moreover from assms(1) have "unat (dma_rw_pos ?c)
      \<le> unat (dma_rw_pos (emit [Pulser_exit_critical] s)) + SAMPLE_SAFE_COUNT"
    unfolding callback_within_margin_def by blast
  ultimately show ?thesis
    using assms(2) by (simp add: stepping_continues_def DMA_SAMPLE_COUNT_eq SAMPLE_SAFE_COUNT_eq)
next
  case False
  then have "dma_rw_pos (stepping_round env s) = dma_rw_pos s + 1"
    by (auto simp add: stepping_round_def Let_def)
  moreover have "unat (dma_rw_pos s + 1) \<le> unat (dma_rw_pos s) + 1"
    by (simp add: unat_word_ariths)
  ultimately show ?thesis
    using assms(2) by (simp add: stepping_continues_def DMA_SAMPLE_COUNT_eq SAMPLE_SAFE_COUNT_eq)
qed

lemma stepping_after_within:
  assumes "callback_within_margin env" "unat (dma_rw_pos s) \<le> DMA_SAMPLE_COUNT"
  shows "unat (dma_rw_pos (stepping_after env n s)) \<le> DMA_SAMPLE_COUNT"
  using assms(2)
proof (induction n arbitrary: s)
  case 0
  then show ?case by simp
next
  case (Suc n)
  show ?case
  proof (cases "stepping_continues s")
    case True
    from stepping_round_within [OF assms(1) True] have
      "unat (dma_rw_pos (stepping_after env n (stepping_round env s))) \<le> DMA_SAMPLE_COUNT"
      by (rule Suc.IH)
    with True show ?thesis by simp
  next
    case False
    with Suc.prems show ?thesis by simp
  qed
qed

lemma stepping_loop_after:
  "stepping_loop env fuel s = Some s' \<Longrightarrow>
   \<exists>n. s' = stepping_after env n s \<and> \<not> stepping_continues s'"
proof (induction fuel arbitrary: s)
  case 0
  then show ?case by simp
next
  case (Suc fuel)
  show ?case
  proof (cases "stepping_continues s")
    case True
    with Suc.prems have "stepping_loop env fuel (stepping_round env s) = Some s'"
      by simp
    from Suc.IH [OF this] obtain n where
      "s' = stepping_after env n (stepping_round env s)" "\<not> stepping_continues s'"
      by blast
    with True have "s' = stepping_after env (Suc n) s \<and> \<not> stepping_continues s'"
      by simp
    then show ?thesis ..
  next
    case False
    with Suc.prems have "s' = stepping_after env 0 s \<and> \<not> stepping_continues s'"
      by simp
    then show ?thesis ..
  qed
qed

lemma filled_length:
  assumes "unat (dma_rw_pos s) \<le> DMA_SAMPLE_COUNT"
  shows "unat (length_f (desc_heap (set_filled_length d s) d)) = unat (dma_rw_pos s) * I2S_SAMPLE_SIZE"
proof -
  from assms have le: "unat (dma_rw_pos s) \<le> 500"
    by (simp add: DMA_SAMPLE_COUNT_eq)
  then have "unat (dma_rw_pos s * 4) = unat (dma_rw_pos s) * 4"
    by (simp add: unat_word_ariths)
  with le have "unat (ucast (dma_rw_pos s * 4) :: 12 word) = unat (dma_rw_pos s) * 4"
    by (simp add: unsigned_ucast_eq take_bit_eq_mod)
  then show ?thesis
    by (simp add: set_filled_length_def I2S_SAMPLE_SIZE_def)
qed

text \<open>
  Stores that start from a cursor inside the buffer leave the memory behind the buffer
  alone: the store of the task, and any call of \<^verbatim>\<open>i2s_ioexpander_push_sample\<close> made while
  the cursor is at least the safety margin away from the end.
\<close>

lemma store32_behind:
  "i < DMA_SAMPLE_COUNT \<Longrightarrow> DMA_BUF_LEN \<le> j \<Longrightarrow> store32 m i w j = m j"
  by (simp add: store32_def DMA_SAMPLE_COUNT_eq DMA_BUF_LEN_def)

lemma push_one_in_buffer:
  "unat (dma_rw_pos s) < DMA_SAMPLE_COUNT \<Longrightarrow> DMA_BUF_LEN \<le> j \<Longrightarrow>
   buf_heap (push_one w s) b j = buf_heap s b j"
  by (simp add: push_one_def store32_behind)

lemma push_many_in_buffer:
  "unat (dma_rw_pos s) + k \<le> DMA_SAMPLE_COUNT \<Longrightarrow> DMA_BUF_LEN \<le> j \<Longrightarrow>
   buf_heap (push_many k w s) b j = buf_heap s b j"
proof (induction k arbitrary: s)
  case 0
  then show ?case by simp
next
  case (Suc k)
  from Suc.prems(1) have lt: "unat (dma_rw_pos s) < DMA_SAMPLE_COUNT"
    by simp
  then have "unat (dma_rw_pos s + 1) = unat (dma_rw_pos s) + 1"
    by (simp add: DMA_SAMPLE_COUNT_eq unat_word_ariths)
  with Suc.prems(1) have "unat (dma_rw_pos (push_one w s)) + k \<le> DMA_SAMPLE_COUNT"
    by simp
  from Suc.IH [OF this Suc.prems(2)] push_one_in_buffer [OF lt Suc.prems(2)] show ?case
    by simp
qed

lemma push_sample_in_buffer:
  assumes "unat (dma_rw_pos s) + SAMPLE_SAFE_COUNT \<le> DMA_SAMPLE_COUNT" "DMA_BUF_LEN \<le> j"
  shows "buf_heap (snd (i2s_ioexpander_push_sample num s)) b j = buf_heap s b j"
proof (cases "SAMPLE_SAFE_COUNT < unat num")
  case True
  then show ?thesis
    by (simp add: i2s_ioexpander_push_sample_def)
next
  case False
  show ?thesis
  proof (cases "num = 0")
    case True
    from assms(1) have "unat (dma_rw_pos s) + 1 \<le> DMA_SAMPLE_COUNT"
      by (simp add: SAMPLE_SAFE_COUNT_eq)
    from push_many_in_buffer [OF this assms(2)] True show ?thesis
      by (simp add: push_sample_zero)
  next
    case nz: False
    from False assms(1) have "unat (dma_rw_pos s) + unat num \<le> DMA_SAMPLE_COUNT"
      by simp
    from push_many_in_buffer [OF this assms(2)] nz False show ?thesis
      by (simp add: push_sample_some)
  qed
qed

text \<open>
  C10: the invariant of a refill in \<open>STEPPING\<close> mode, provided every callback keeps to
  \<^const>\<open>callback_within_margin\<close>. After any number \<open>n\<close> of rounds, whether or not the
  loop ever ends, the cursor is at most \<^const>\<open>DMA_SAMPLE_COUNT\<close>; the length that the
  statement after the loop would record is the cursor times \<^const>\<open>I2S_SAMPLE_SIZE\<close>,
  with no truncation by the 12-bit field, and at most \<^const>\<open>DMA_BUF_LEN\<close>; and while
  the loop goes on, the cursor is more than the safety margin away from the end of the
  buffer, so that neither the sample the task stores there nor the samples that a call of
  \<^verbatim>\<open>i2s_ioexpander_push_sample\<close> pushes there change a byte behind the buffer. When a refill does return, the cursor and the length
  in its descriptor obey the same bounds.
\<close>

theorem stepping_refill_within_buffer:
  assumes "callback_within_margin env"
  shows "(let t = stepping_after env n (s\<lparr>dma_rw_pos := 0\<rparr>)
          in unat (dma_rw_pos t) \<le> DMA_SAMPLE_COUNT
             \<and> unat (length_f (desc_heap (set_filled_length d t) d))
                  = unat (dma_rw_pos t) * I2S_SAMPLE_SIZE
             \<and> unat (dma_rw_pos t) * I2S_SAMPLE_SIZE \<le> DMA_BUF_LEN
             \<and> (stepping_continues t \<longrightarrow>
                  unat (dma_rw_pos t) + SAMPLE_SAFE_COUNT < DMA_SAMPLE_COUNT
                  \<and> (\<forall>b j. DMA_BUF_LEN \<le> j \<longrightarrow>
                        buf_heap (push_one (i2s_port_data t) t) b j = buf_heap t b j
                        \<and> (\<forall>num. buf_heap (snd (i2s_ioexpander_push_sample num t)) b j
                                   = buf_heap t b j))))
       \<and> (i2s_ioexpander_pulser_status s = STEPPING \<longrightarrow>
            (\<forall>s'. i2sIOExpanderTask_refill env fuel d s = Some s' \<longrightarrow>
               unat (dma_rw_pos s') \<le> DMA_SAMPLE_COUNT
               \<and> unat (length_f (desc_heap s' d)) = unat (dma_rw_pos s') * I2S_SAMPLE_SIZE
               \<and> unat (length_f (desc_heap s' d)) \<le> DMA_BUF_LEN))"
proof -
  have inv: "unat (dma_rw_pos (stepping_after env m (s0\<lparr>dma_rw_pos := 0\<rparr>))) \<le> DMA_SAMPLE_COUNT"
    for m s0
    using assms by (rule stepping_after_within) simp
  have bytes: "unat (dma_rw_pos t) * I2S_SAMPLE_SIZE \<le> DMA_BUF_LEN"
    if "unat (dma_rw_pos t) \<le> DMA_SAMPLE_COUNT" for t :: i2s_state
    using that by (simp add: DMA_SAMPLE_COUNT_eq I2S_SAMPLE_SIZE_def DMA_BUF_LEN_def)
  have first: "let t = stepping_after env n (s\<lparr>dma_rw_pos := 0\<rparr>)
          in unat (dma_rw_pos t) \<le> DMA_SAMPLE_COUNT
             \<and> unat (length_f (desc_heap (set_filled_length d t) d))
                  = unat (dma_rw_pos t) * I2S_SAMPLE_SIZE
             \<and> unat (dma_rw_pos t) * I2S_SAMPLE_SIZE \<le> DMA_BUF_LEN
             \<and> (stepping_continues t \<longrightarrow>
                  unat (dma_rw_pos t) + SAMPLE_SAFE_COUNT < DMA_SAMPLE_COUNT
                  \<and> (\<forall>b j. DMA_BUF_LEN \<le> j \<longrightarrow>
                        buf_heap (push_one (i2s_port_data t) t) b j = buf_heap t b j
                        \<and> (\<forall>num. buf_heap (snd (i2s_ioexpander_push_sample num t)) b j
                                   = buf_heap t b j)))"
  proof -
    let ?t = "stepping_after env n (s\<lparr>dma_rw_pos := 0\<rparr>)"
    have room: "unat (dma_rw_pos ?t) + SAMPLE_SAFE_COUNT < DMA_SAMPLE_COUNT"
      if "stepping_continues ?t"
      using that by (simp add: stepping_continues_def DMA_SAMPLE_COUNT_eq SAMPLE_SAFE_COUNT_eq)
    have inside: "buf_heap (push_one (i2s_port_data ?t) ?t) b j = buf_heap ?t b j
        \<and> (\<forall>num. buf_heap (snd (i2s_ioexpander_push_sample num ?t)) b j = buf_heap ?t b j)"
      if c: "stepping_continues ?t" and j: "DMA_BUF_LEN \<le> j" for b j
    proof -
      from room [OF c] have "unat (dma_rw_pos ?t) < DMA_SAMPLE_COUNT"
        and "unat (dma_rw_pos ?t) + SAMPLE_SAFE_COUNT \<le> DMA_SAMPLE_COUNT"
        by simp_all
      then show ?thesis
        using j by (simp add: push_one_in_buffer push_sample_in_buffer)
    qed
    show ?thesis
      unfolding Let_def
      using inv [of n s] bytes [OF inv [of n s]] filled_length [OF inv [of n s], of d]
        room inside
      by blast
  qed
  have second: "unat (dma_rw_pos s') \<le> DMA_SAMPLE_COUNT
               \<and> unat (length_f (desc_heap s' d)) = unat (dma_rw_pos s') * I2S_SAMPLE_SIZE
               \<and> unat (length_f (desc_heap s' d)) \<le> DMA_BUF_LEN"
    if st: "i2s_ioexpander_pulser_status s = STEPPING"
      and r: "i2sIOExpanderTask_refill env fuel d s = Some s'" for s'
  proof -
    let ?s0 = "emit [Pulser_enter_critical] (s\<lparr>dma_current := buf (desc_heap s d)\<rparr>)"
    from st r obtain t where
      loop: "stepping_loop env fuel (?s0\<lparr>dma_rw_pos := 0\<rparr>) = Some t"
      and s': "s' = emit [Pulser_exit_critical] (set_filled_length d t)"
      by (auto simp add: i2sIOExpanderTask_refill_def Let_def split: option.splits)
    from stepping_loop_after [OF loop] obtain m where
      "t = stepping_after env m (?s0\<lparr>dma_rw_pos := 0\<rparr>)"
      by blast
    with inv [of m ?s0] have t: "unat (dma_rw_pos t) \<le> DMA_SAMPLE_COUNT"
      by simp
    have rw: "dma_rw_pos s' = dma_rw_pos t"
      by (simp add: s' set_filled_length_def)
    have len: "length_f (desc_heap s' d) = length_f (desc_heap (set_filled_length d t) d)"
      by (simp add: s')
    show ?thesis
      using t bytes [OF t] filled_length [OF t, of d] by (simp add: rw len)
  qed
  from first second show ?thesis
    by blast
qed

lemma pulse_callbacks_push: "pulse_callbacks f s = push_many 5 (i2s_port_data s) s"
proof -
  have "(5 :: 32 word) \<noteq> 0" "unat (5 :: 32 word) \<le> SAMPLE_SAFE_COUNT"
    by (simp_all add: SAMPLE_SAFE_COUNT_eq)
  from push_sample_some [OF this] show ?thesis
    by (simp add: pulse_callbacks_def)
qed

lemma pulse_callbacks_within_margin: "callback_within_margin pulse_callbacks"
  unfolding callback_within_margin_def
  by (simp add: pulse_callbacks_push push_many_rw_pos SAMPLE_SAFE_COUNT_eq unat_word_ariths)

lemma push_many_control [simp]:
  "i2s_ioexpander_pulser_status (push_many k p s) = i2s_ioexpander_pulser_status s"
  "i2s_ioexpander_pulse_phase_func (push_many k p s) = i2s_ioexpander_pulse_phase_func s"
  "i2s_ioexpander_pulse_period (push_many k p s) = i2s_ioexpander_pulse_period s"
  "i2s_ioexpander_remain_time_until_next_pulse (push_many k p s) =
     i2s_ioexpander_remain_time_until_next_pulse s"
  "trace (push_many k p s) = trace s"
  "desc_heap (push_many k p s) = desc_heap s"
  "i2s_port_data (push_many k p s) = i2s_port_data s"
  by (induction k arbitrary: s) (simp_all add: push_one_def)

lemma pulsing_round:
  assumes "pulsing t"
  shows "pulsing (stepping_round pulse_callbacks t)
     \<and> dma_rw_pos (stepping_round pulse_callbacks t) = dma_rw_pos t + 5"
  using assms
  by (simp add: pulsing_def stepping_round_def Let_def USEC_word pulse_callbacks_push
      push_many_rw_pos)

lemma pulsing_loop_ends:
  "pulsing t \<Longrightarrow> unat (dma_rw_pos t) + 5 * j = 495 \<Longrightarrow>
   \<exists>t'. stepping_loop pulse_callbacks (Suc j) t = Some t'"
proof (induction j arbitrary: t)
  case 0
  then show ?case
    by (simp add: stepping_continues_def DMA_SAMPLE_COUNT_eq SAMPLE_SAFE_COUNT_eq)
next
  case (Suc j)
  let ?t = "stepping_round pulse_callbacks t"
  from Suc.prems have c: "stepping_continues t"
    by (simp add: stepping_continues_def DMA_SAMPLE_COUNT_eq SAMPLE_SAFE_COUNT_eq)
  from pulsing_round [OF Suc.prems(1)] have p: "pulsing ?t"
    and rw: "dma_rw_pos ?t = dma_rw_pos t + 5"
    by simp_all
  from Suc.prems(2) have "unat (dma_rw_pos t + 5) = unat (dma_rw_pos t) + 5"
    by (simp add: unat_word_ariths)
  with Suc.prems(2) rw have "unat (dma_rw_pos ?t) + 5 * j = 495"
    by simp
  from Suc.IH [OF p this] c show ?case
    by simp
qed

text \<open>
  C10 with the callback \<^const>\<open>pulse_callbacks\<close> on \<^const>\<open>pulse_state\<close>: the callback keeps
  to the margin, and the refill of descriptor 100 returns after 99 rounds of five samples.
\<close>

theorem stepping_refill_within_buffer_witness:
  "callback_within_margin pulse_callbacks
   \<and> i2s_ioexpander_pulser_status pulse_state = STEPPING
   \<and> unat (dma_rw_pos (stepping_after pulse_callbacks 3 (pulse_state\<lparr>dma_rw_pos := 0\<rparr>))) \<le> 500
   \<and> (\<exists>s'. i2sIOExpanderTask_refill pulse_callbacks 100 100 pulse_state = Some s'
         \<and> unat (length_f (desc_heap s' 100)) \<le> 2000)"
proof -
  have st: "i2s_ioexpander_pulser_status pulse_state = STEPPING"
    by (simp add: pulse_state_def)
  let ?s0 = "(emit [Pulser_enter_critical]
      (pulse_state\<lparr>dma_current := buf (desc_heap pulse_state 100)\<rparr>))\<lparr>dma_rw_pos := 0\<rparr>"
  have "pulsing ?s0" "unat (dma_rw_pos ?s0) + 5 * 99 = 495"
    by (simp_all add: pulsing_def pulse_state_def)
  from pulsing_loop_ends [OF this] obtain t where
    "stepping_loop pulse_callbacks 100 ?s0 = Some t"
    by auto
  with st have "\<exists>s'. i2sIOExpanderTask_refill pulse_callbacks 100 100 pulse_state = Some s'"
    by (simp add: i2sIOExpanderTask_refill_def Let_def)
  then obtain s' where r: "i2sIOExpanderTask_refill pulse_callbacks 100 100 pulse_state = Some s'"
    by blast
  from stepping_refill_within_buffer [OF pulse_callbacks_within_margin, of 3 pulse_state 100 100]
    st r
  have "unat (dma_rw_pos (stepping_after pulse_callbacks 3 (pulse_state\<lparr>dma_rw_pos := 0\<rparr>)))
      \<le> DMA_SAMPLE_COUNT" and "unat (length_f (desc_heap s' 100)) \<le> DMA_BUF_LEN"
    by (simp_all add: Let_def)
  with st r pulse_callbacks_within_margin show ?thesis
    by (simp add: DMA_SAMPLE_COUNT_eq DMA_BUF_LEN_def)
qed

text \<open>
  C3 on \<^const>\<open>pulse_state\<close> (cursor 7): with a pulse due, the callback pushes its five
  samples and the remaining time becomes the period 0; with 10 microseconds left, the
  task stores the port word in slot 7 and 6 microseconds remain.
\<close>

theorem stepping_round_cases_witness:
  "i2s_ioexpander_pulse_phase_func pulse_state \<noteq> 0
   \<and> dma_rw_pos (stepping_round pulse_callbacks pulse_state) = 12
   \<and> i2s_ioexpander_remain_time_until_next_pulse (stepping_round pulse_callbacks pulse_state) = 0
   \<and> dma_rw_pos (stepping_round pulse_callbacks
        (pulse_state\<lparr>i2s_ioexpander_remain_time_until_next_pulse := 10\<rparr>)) = 8
   \<and> unat (i2s_ioexpander_remain_time_until_next_pulse (stepping_round pulse_callbacks
        (pulse_state\<lparr>i2s_ioexpander_remain_time_until_next_pulse := 10\<rparr>))) = 6
   \<and> load32 (buf_heap (stepping_round pulse_callbacks
        (pulse_state\<lparr>i2s_ioexpander_remain_time_until_next_pulse := 10\<rparr>)) 200) 7 = 305419896"
proof -
  let ?late = "pulse_state\<lparr>i2s_ioexpander_remain_time_until_next_pulse := 10\<rparr>"
  have h: "i2s_ioexpander_pulse_phase_func pulse_state \<noteq> 0"
    "i2s_ioexpander_pulse_phase_func ?late \<noteq> 0"
    by (simp_all add: pulse_state_def)
  from stepping_round_cases [OF h(1), of pulse_callbacks]
  have "dma_rw_pos (stepping_round pulse_callbacks pulse_state) = 12
      \<and> i2s_ioexpander_remain_time_until_next_pulse (stepping_round pulse_callbacks pulse_state) = 0"
    by (simp add: Let_def pulse_state_def I2S_IOEXP_USEC_PER_PULSE_def pulse_callbacks_push
        push_many_rw_pos)
  moreover from stepping_round_cases [OF h(2), of pulse_callbacks]
  have "dma_rw_pos (stepping_round pulse_callbacks ?late) = 8
      \<and> unat (i2s_ioexpander_remain_time_until_next_pulse (stepping_round pulse_callbacks ?late)) = 6
      \<and> load32 (buf_heap (stepping_round pulse_callbacks ?late) 200) 7 = 305419896"
    by (simp add: Let_def pulse_state_def I2S_IOEXP_USEC_PER_PULSE_def running_state_def)
  ultimately show ?thesis
    using h by simp
qed

section \<open>i2s\_ioexpander\_init when an allocation fails\<close>

declare alloc_buffers.simps [simp del] alloc_descs.simps [simp del]

lemma alloc_buffers_keeps:
  "alloc_buffers al i s = (ok, s') \<Longrightarrow>
   trace s' = trace s \<and> i2s_ioexpander_initialized s' = i2s_ioexpander_initialized s
   \<and> dma_queue s' = dma_queue s \<and> dma_buffers_ptr s' = dma_buffers_ptr s
   \<and> dma_desc_ptr s' = dma_desc_ptr s"
proof (induction al i s rule: alloc_buffers.induct)
  case (1 al buf_idx s)
  show ?case
  proof (cases "buf_idx < DMA_BUF_COUNT \<and> buffer_at al buf_idx \<noteq> 0")
    case True
    let ?s = "s\<lparr>dma_buffers := (dma_buffers s)(buf_idx := buffer_at al buf_idx),
                   buf_heap := (if buffer_at al buf_idx = 0 then buf_heap s
                                else (buf_heap s)(buffer_at al buf_idx := (\<lambda>j. if j < DMA_BUF_LEN then 0
                                                           else buf_heap s (buffer_at al buf_idx) j)))\<rparr>"
    from True "1.prems" have "alloc_buffers al (buf_idx + 1) ?s = (ok, s')"
      by (subst (asm) alloc_buffers.simps) (simp add: Let_def)
    with True "1.IH" [OF _ refl refl, of ] show ?thesis
      by (simp add: Let_def)
  next
    case False
    with "1.prems" show ?thesis
      by (subst (asm) alloc_buffers.simps) (auto simp add: Let_def split: if_splits)
  qed
qed

lemma alloc_buffers_ok:
  "alloc_buffers al i s = (ok, s') \<Longrightarrow>
   ok = (\<forall>k. i \<le> k \<and> k < DMA_BUF_COUNT \<longrightarrow> buffer_at al k \<noteq> 0)"
proof (induction al i s rule: alloc_buffers.induct)
  case (1 al buf_idx s)
  show ?case
  proof (cases "buf_idx < DMA_BUF_COUNT")
    case True
    note lt = this
    show ?thesis
    proof (cases "buffer_at al buf_idx = 0")
      case True
      with lt "1.prems" have "\<not> ok"
        by (subst (asm) alloc_buffers.simps) (simp add: Let_def)
      with True lt show ?thesis
        by auto
    next
      case False
      let ?s = "s\<lparr>dma_buffers := (dma_buffers s)(buf_idx := buffer_at al buf_idx),
                   buf_heap := (if buffer_at al buf_idx = 0 then buf_heap s
                                else (buf_heap s)(buffer_at al buf_idx := (\<lambda>j. if j < DMA_BUF_LEN then 0
                                                           else buf_heap s (buffer_at al buf_idx) j)))\<rparr>"
      from lt False "1.prems" have "alloc_buffers al (buf_idx + 1) ?s = (ok, s')"
        by (subst (asm) alloc_buffers.simps) (simp add: Let_def)
      with lt False "1.IH" [OF _ refl refl] have
        "ok = (\<forall>k. buf_idx + 1 \<le> k \<and> k < DMA_BUF_COUNT \<longrightarrow> buffer_at al k \<noteq> 0)"
        by (simp add: Let_def)
      moreover have "(\<forall>k. buf_idx \<le> k \<and> k < DMA_BUF_COUNT \<longrightarrow> buffer_at al k \<noteq> 0)
          = (\<forall>k. buf_idx + 1 \<le> k \<and> k < DMA_BUF_COUNT \<longrightarrow> buffer_at al k \<noteq> 0)"
        using False by (metis Suc_eq_plus1 Suc_leI le_eq_less_or_eq Suc_leD)
      ultimately show ?thesis
        by simp
    qed
  next
    case False
    with "1.prems" show ?thesis
      by (subst (asm) alloc_buffers.simps) auto
  qed
qed

lemma alloc_descs_keeps:
  "alloc_descs al i s = (ok, s') \<Longrightarrow>
   trace s' = trace s \<and> i2s_ioexpander_initialized s' = i2s_ioexpander_initialized s
   \<and> dma_queue s' = dma_queue s \<and> dma_buffers_ptr s' = dma_buffers_ptr s
   \<and> dma_desc_ptr s' = dma_desc_ptr s"
proof (induction al i s rule: alloc_descs.induct)
  case (1 al buf_idx s)
  show ?case
  proof (cases "buf_idx < DMA_BUF_COUNT \<and> descriptor_at al buf_idx \<noteq> 0")
    case True
    let ?s = "s\<lparr>dma_desc := (dma_desc s)(buf_idx := descriptor_at al buf_idx)\<rparr>"
    from True "1.prems" have "alloc_descs al (buf_idx + 1) ?s = (ok, s')"
      by (subst (asm) alloc_descs.simps) (simp add: Let_def)
    with True "1.IH" [OF _ refl] show ?thesis
      by (simp add: Let_def)
  next
    case False
    with "1.prems" show ?thesis
      by (subst (asm) alloc_descs.simps) (auto simp add: Let_def split: if_splits)
  qed
qed

lemma alloc_descs_ok:
  "alloc_descs al i s = (ok, s') \<Longrightarrow>
   ok = (\<forall>k. i \<le> k \<and> k < DMA_BUF_COUNT \<longrightarrow> descriptor_at al k \<noteq> 0)"
proof (induction al i s rule: alloc_descs.induct)
  case (1 al buf_idx s)
  show ?case
  proof (cases "buf_idx < DMA_BUF_COUNT")
    case True
    note lt = this
    show ?thesis
    proof (cases "descriptor_at al buf_idx = 0")
      case True
      with lt "1.prems" have "\<not> ok"
        by (subst (asm) alloc_descs.simps) (simp add: Let_def)
      with True lt show ?thesis
        by auto
    next
      case False
      let ?s = "s\<lparr>dma_desc := (dma_desc s)(buf_idx := descriptor_at al buf_idx)\<rparr>"
      from lt False "1.prems" have "alloc_descs al (buf_idx + 1) ?s = (ok, s')"
        by (subst (asm) alloc_descs.simps) (simp add: Let_def)
      with lt False "1.IH" [OF _ refl] have
        "ok = (\<forall>k. buf_idx + 1 \<le> k \<and> k < DMA_BUF_COUNT \<longrightarrow> descriptor_at al k \<noteq> 0)"
        by (simp add: Let_def)
      moreover have "(\<forall>k. buf_idx \<le> k \<and> k < DMA_BUF_COUNT \<longrightarrow> descriptor_at al k \<noteq> 0)
          = (\<forall>k. buf_idx + 1 \<le> k \<and> k < DMA_BUF_COUNT \<longrightarrow> descriptor_at al k \<noteq> 0)"
        using False by (metis Suc_eq_plus1 Suc_leI le_eq_less_or_eq Suc_leD)
      ultimately show ?thesis
        by simp
    qed
  next
    case False
    with "1.prems" show ?thesis
      by (subst (asm) alloc_descs.simps) auto
  qed
qed

lemma i2s_gpio_attach_events:
  "i2s_gpio_attach ws bck data s =
     emit (attach_events data I2S0O_DATA_OUT23_IDX @ attach_events bck I2S0O_BCK_OUT_IDX
           @ attach_events ws I2S0O_WS_OUT_IDX) s"
  by (simp add: i2s_gpio_attach_def gpio_matrix_out_check_pin attach_events_def)

lemma before_alloc_quiet:
  "e \<in> set (before_alloc_events p) \<Longrightarrow>
   e \<noteq> Intr_enable \<and> e \<noteq> Intr_alloc \<and> e \<noteq> Task_create \<and> (\<forall>r v. e \<noteq> Reg r v)"
  by (auto simp add: before_alloc_events_def attach_events_def)

lemma i2s_start_initialized:
  "i2s_ioexpander_initialized (snd (i2s_start s)) = i2s_ioexpander_initialized s"
proof -
  from i2s_start_emit obtain es where "snd (i2s_start s) = emit es s"
    by blast
  then show ?thesis
    by simp
qed

lemma init_after_alloc_initialized: "i2s_ioexpander_initialized (init_after_alloc p s)"
  by (simp add: init_after_alloc_def Let_def i2s_start_initialized)

lemma init_with_memory:
  assumes "\<not> i2s_ioexpander_initialized s" and "\<not> allocation_fails al"
  shows "fst (i2s_ioexpander_init al p s) = 0
     \<and> i2s_ioexpander_initialized (snd (i2s_ioexpander_init al p s))"
proof -
  let ?s0 = "(i2s_gpio_attach (ws_pin p) (bck_pin p) (data_pin p)
      (emit [Periph_module_reset, Periph_module_enable] s))\<lparr>dma_buffers_ptr := buffers_array al\<rparr>"
  obtain ok1 s1 where b: "alloc_buffers al 0 ?s0 = (ok1, s1)"
    by (cases "alloc_buffers al 0 ?s0")
  let ?s1 = "s1\<lparr>dma_desc_ptr := desc_array al\<rparr>"
  obtain ok2 s2 where d: "alloc_descs al 0 ?s1 = (ok2, s2)"
    by (cases "alloc_descs al 0 ?s1")
  from assms(2) have mem: "buffers_array al \<noteq> 0" "desc_array al \<noteq> 0"
    "\<forall>k < DMA_BUF_COUNT. buffer_at al k \<noteq> 0" "\<forall>k < DMA_BUF_COUNT. descriptor_at al k \<noteq> 0"
    unfolding allocation_fails_def by simp_all
  have "ok1" "ok2"
    using alloc_buffers_ok [OF b] alloc_descs_ok [OF d] mem by simp_all
  with assms(1) mem have "i2s_ioexpander_init al p s = (0, init_after_alloc p s2)"
    by (simp add: i2s_ioexpander_init_def Let_def b d)
  then show ?thesis
    by (simp add: init_after_alloc_initialized)
qed

text \<open>
  C7 (amended): whenever some allocation fails in a call of \<^verbatim>\<open>i2s_ioexpander_init\<close> on
  an engine that is not initialised, the call returns -1 and the engine stays
  uninitialised, so that a later call that finds memory succeeds. Of the hardware, the
  call has by then reset and enabled the I2S0 peripheral module and attached the data,
  clock and word-select pins to it, and nothing else: it has written no register, created
  neither the feeder task nor the interrupt, enabled no interrupt, started no
  transmission, and left the completion queue alone. The module and the three pins stay
  as the call left them.
\<close>

theorem init_allocation_failure:
  assumes "\<not> i2s_ioexpander_initialized s" and "allocation_fails al"
  shows "fst (i2s_ioexpander_init al p s) = - 1
     \<and> \<not> i2s_ioexpander_initialized (snd (i2s_ioexpander_init al p s))
     \<and> trace (snd (i2s_ioexpander_init al p s)) = trace s @ before_alloc_events p
     \<and> (\<forall>e \<in> set (before_alloc_events p).
           e \<noteq> Intr_enable \<and> e \<noteq> Intr_alloc \<and> e \<noteq> Task_create \<and> (\<forall>r v. e \<noteq> Reg r v))
     \<and> Periph_module_enable \<in> set (before_alloc_events p)
     \<and> Gpio_matrix_out (ucast (ws_pin p)) I2S0O_WS_OUT_IDX \<in> set (before_alloc_events p)
     \<and> dma_queue (snd (i2s_ioexpander_init al p s)) = dma_queue s
     \<and> (\<forall>al' p'. \<not> allocation_fails al' \<longrightarrow>
           fst (i2s_ioexpander_init al' p' (snd (i2s_ioexpander_init al p s))) = 0)"
proof -
  let ?s0 = "(i2s_gpio_attach (ws_pin p) (bck_pin p) (data_pin p)
      (emit [Periph_module_reset, Periph_module_enable] s))\<lparr>dma_buffers_ptr := buffers_array al\<rparr>"
  have s0: "trace ?s0 = trace s @ before_alloc_events p"
    "\<not> i2s_ioexpander_initialized ?s0" "dma_queue ?s0 = dma_queue s"
    using assms(1) by (simp_all add: i2s_gpio_attach_events before_alloc_events_def)
  obtain ok1 s1 where b: "alloc_buffers al 0 ?s0 = (ok1, s1)"
    by (cases "alloc_buffers al 0 ?s0")
  let ?s1 = "s1\<lparr>dma_desc_ptr := desc_array al\<rparr>"
  obtain ok2 s2 where d: "alloc_descs al 0 ?s1 = (ok2, s2)"
    by (cases "alloc_descs al 0 ?s1")
  from alloc_buffers_keeps [OF b] s0 have s1: "trace s1 = trace s @ before_alloc_events p"
    "\<not> i2s_ioexpander_initialized s1" "dma_queue s1 = dma_queue s"
    by simp_all
  from alloc_descs_keeps [OF d] s1 have s2: "trace s2 = trace s @ before_alloc_events p"
    "\<not> i2s_ioexpander_initialized s2" "dma_queue s2 = dma_queue s"
    by simp_all
  have ok1: "ok1 = (\<forall>k < DMA_BUF_COUNT. buffer_at al k \<noteq> 0)"
    using alloc_buffers_ok [OF b] by simp
  have ok2: "ok2 = (\<forall>k < DMA_BUF_COUNT. descriptor_at al k \<noteq> 0)"
    using alloc_descs_ok [OF d] by simp
  have fail: "buffers_array al = 0 \<or> \<not> ok1 \<or> desc_array al = 0 \<or> \<not> ok2"
    using assms(2) unfolding allocation_fails_def ok1 ok2 by blast
  have run: "i2s_ioexpander_init al p s =
      (if buffers_array al = 0 then (- 1, ?s0)
       else if \<not> ok1 then (- 1, s1)
       else if desc_array al = 0 then (- 1, ?s1)
       else if \<not> ok2 then (- 1, s2)
       else (0, init_after_alloc p s2))"
    using assms(1) by (simp add: i2s_ioexpander_init_def Let_def b d)
  have "fst (i2s_ioexpander_init al p s) = - 1
     \<and> \<not> i2s_ioexpander_initialized (snd (i2s_ioexpander_init al p s))
     \<and> trace (snd (i2s_ioexpander_init al p s)) = trace s @ before_alloc_events p
     \<and> dma_queue (snd (i2s_ioexpander_init al p s)) = dma_queue s"
    using fail s0 s1 s2 unfolding run by auto
  moreover from this have "fst (i2s_ioexpander_init al' p' (snd (i2s_ioexpander_init al p s))) = 0"
    if "\<not> allocation_fails al'" for al' p'
    using init_with_memory [OF _ that] by blast
  moreover have "Periph_module_enable \<in> set (before_alloc_events p)"
    "Gpio_matrix_out (ucast (ws_pin p)) I2S0O_WS_OUT_IDX \<in> set (before_alloc_events p)"
    by (simp_all add: before_alloc_events_def attach_events_def)
  ultimately show ?thesis
    using before_alloc_quiet [of _ p] by blast
qed

text \<open>
  C7, as stated, at an explicit input: with no memory at all, on the power-on state, the
  call returns -1 and the trace, empty before, shows the peripheral module enabled and the
  three pins of the caller attached to the I2S0 output signals.
\<close>

theorem init_failure_leaves_hardware_enabled:
  "allocation_fails no_memory
   \<and> \<not> i2s_ioexpander_initialized power_on_state
   \<and> trace power_on_state = []
   \<and> fst (i2s_ioexpander_init no_memory board_pins power_on_state) = - 1
   \<and> trace (snd (i2s_ioexpander_init no_memory board_pins power_on_state)) =
       [Periph_module_reset, Periph_module_enable,
        Pin_func_select 21, Gpio_set_direction 21, Gpio_matrix_out 21 I2S0O_DATA_OUT23_IDX,
        Pin_func_select 22, Gpio_set_direction 22, Gpio_matrix_out 22 I2S0O_BCK_OUT_IDX,
        Pin_func_select 17, Gpio_set_direction 17, Gpio_matrix_out 17 I2S0O_WS_OUT_IDX]"
  by (simp add: allocation_fails_def no_memory_def power_on_state_def i2s_ioexpander_init_def
      Let_def i2s_gpio_attach_events attach_events_def board_pins_def emit_def)

text \<open>
  The amended C7 with an allocator that fails at the last descriptor: -1, still not
  initialised, and the eleven events of the module and the pins.
\<close>

theorem init_allocation_failure_witness:
  "\<not> i2s_ioexpander_initialized power_on_state
   \<and> allocation_fails memory_short
   \<and> fst (i2s_ioexpander_init memory_short board_pins power_on_state) = - 1
   \<and> \<not> i2s_ioexpander_initialized (snd (i2s_ioexpander_init memory_short board_pins power_on_state))
   \<and> length (trace (snd (i2s_ioexpander_init memory_short board_pins power_on_state))) = 11"
proof -
  have h1: "\<not> i2s_ioexpander_initialized power_on_state"
    by (simp add: power_on_state_def)
  have "descriptor_at memory_short 4 = 0" "4 < DMA_BUF_COUNT"
    by (simp_all add: memory_short_def DMA_BUF_COUNT_def)
  then have h2: "allocation_fails memory_short"
    unfolding allocation_fails_def by blast
  from init_allocation_failure [OF h1 h2, of board_pins] h1 h2 show ?thesis
    by (simp add: power_on_state_def before_alloc_events_def attach_events_def)
qed

section \<open>A successful initialisation\<close>

lemma alloc_descs_result:
  "alloc_descs al i s = (True, s') \<Longrightarrow>
   dma_desc s' k = (if i \<le> k \<and> k < DMA_BUF_COUNT then descriptor_at al k else dma_desc s k)"
proof (induction al i s rule: alloc_descs.induct)
  case (1 al buf_idx s)
  show ?case
  proof (cases "buf_idx < DMA_BUF_COUNT")
    case True
    let ?s = "s\<lparr>dma_desc := (dma_desc s)(buf_idx := descriptor_at al buf_idx)\<rparr>"
    from True "1.prems" have nz: "descriptor_at al buf_idx \<noteq> 0"
      and rest: "alloc_descs al (buf_idx + 1) ?s = (True, s')"
      by (subst (asm) alloc_descs.simps, simp add: Let_def split: if_splits)+
    from True nz "1.IH" [OF _ refl _ rest] have
      "dma_desc s' k = (if buf_idx + 1 \<le> k \<and> k < DMA_BUF_COUNT then descriptor_at al k
                        else dma_desc ?s k)"
      by simp
    with True show ?thesis
      by auto
  next
    case False
    with "1.prems" show ?thesis
      by (subst (asm) alloc_descs.simps) auto
  qed
qed

lemma fold_ready_desc_ring [simp]: "dma_desc (fold ready_desc ks s) = dma_desc s"
  by (induction ks arbitrary: s) simp_all

lemma i2s_start_ring: "dma_desc (snd (i2s_start s)) = dma_desc s"
proof -
  from i2s_start_emit obtain es where "snd (i2s_start s) = emit es s"
    by blast
  then show ?thesis
    by simp
qed

lemma init_after_alloc_ring: "dma_desc (init_after_alloc p s) = dma_desc s"
  by (simp add: init_after_alloc_def Let_def i2s_start_ring i2s_reset_fifo_def
      i2s_reset_fifo_without_lock_def)

text \<open>
  The hypothesis of the theorem on \<^verbatim>\<open>i2s_ioexpander_reset\<close> is what a successful
  initialisation leaves behind: when every allocation succeeds and the allocator hands out
  a different descriptor for each index, as it does for objects that are alive together,
  the engine is initialised and the descriptors of its ring are distinct.
\<close>

lemma init_with_memory_ring:
  assumes "\<not> i2s_ioexpander_initialized s" and "\<not> allocation_fails al"
    and "distinct (map (descriptor_at al) [0..<DMA_BUF_COUNT])"
  shows "i2s_ioexpander_initialized (snd (i2s_ioexpander_init al p s))
     \<and> distinct (map (dma_desc (snd (i2s_ioexpander_init al p s))) [0..<DMA_BUF_COUNT])"
proof -
  let ?s0 = "(i2s_gpio_attach (ws_pin p) (bck_pin p) (data_pin p)
      (emit [Periph_module_reset, Periph_module_enable] s))\<lparr>dma_buffers_ptr := buffers_array al\<rparr>"
  obtain ok1 s1 where b: "alloc_buffers al 0 ?s0 = (ok1, s1)"
    by (cases "alloc_buffers al 0 ?s0")
  let ?s1 = "s1\<lparr>dma_desc_ptr := desc_array al\<rparr>"
  obtain ok2 s2 where d: "alloc_descs al 0 ?s1 = (ok2, s2)"
    by (cases "alloc_descs al 0 ?s1")
  from assms(2) have mem: "buffers_array al \<noteq> 0" "desc_array al \<noteq> 0"
    "\<forall>k < DMA_BUF_COUNT. buffer_at al k \<noteq> 0" "\<forall>k < DMA_BUF_COUNT. descriptor_at al k \<noteq> 0"
    unfolding allocation_fails_def by simp_all
  have ok: "ok1" "ok2"
    using alloc_buffers_ok [OF b] alloc_descs_ok [OF d] mem by simp_all
  with assms(1) mem have run: "i2s_ioexpander_init al p s = (0, init_after_alloc p s2)"
    by (simp add: i2s_ioexpander_init_def Let_def b d)
  have "map (dma_desc s2) [0..<DMA_BUF_COUNT] = map (descriptor_at al) [0..<DMA_BUF_COUNT]"
    using alloc_descs_result [OF d [unfolded ok(2) [THEN eqTrueI]]] by simp
  with assms(3) have "distinct (map (dma_desc s2) [0..<DMA_BUF_COUNT])"
    by (simp only:)
  then show ?thesis
    by (simp add: run init_after_alloc_initialized init_after_alloc_ring)
qed

end
